theory Spec2Isabelle
  imports
    Main
    "HOL-Library.AList"
    "HOL-Library.Char_ord"
    "HOL-Library.List_Lexorder"
    "HOL-Library.Multiset"
    "HOL-Library.Product_Lexorder"
begin

section \<open>Python values and the builtins the scripts call\<close>

text \<open>
  The two scripts of the repository, \<open>primer_pair_profiling_batch.py\<close> and
  \<open>split_silva.py\<close>, as functions on values: a loop is a recursive function on the
  list it runs over, with the variables it changes as arguments and results; an
  exception is the \<open>Inl\<close> of a sum, or the \<open>raised\<close> field of an outcome; the module
  variable \<open>primer_pairs\<close> is passed in and returned. What the scripts get from
  outside is an argument: the files found by the glob and, for each, what the tool
  \<open>primer_pair_profiling.py\<close> returned; the records of the sequence database. Logging,
  and the errors of opening a file, are left out.

  Text is modelled as \<^typ>\<open>string\<close> holding ASCII characters; the order on characters is
  the order of their codes (\<open>Char_ord\<close>), the order on strings the lexicographic one
  (\<open>List_Lexorder\<close>), and the order on tuples the lexicographic one
  (\<open>Product_Lexorder\<close>), as Python compares \<open>str\<close> and \<open>tuple\<close> values.
  Python integers are unbounded: \<^typ>\<open>int\<close>.
\<close>

datatype error = IndexError | ValueError | KeyError | AttributeError | CalledProcessError

text \<open>
  A value stored in the tally table: \<open>tally_primers\<close> stores the text \<open>items[1]\<close>,
  \<open>print_tallies\<close> stores the integer \<open>0\<close>.
\<close>

datatype pyval = PStr string | PInt int

text \<open>
  A \<open>dict\<close> keeps its keys in insertion order: an association list with distinct keys.
  Reading is \<^const>\<open>map_of\<close>, the assignment \<open>d[k] = v\<close> is \<^const>\<open>AList.update\<close>
  (a present key keeps its position, a new key goes last).
\<close>

type_synonym ('k, 'v) dict = "('k \<times> 'v) list"

abbreviation TAB :: char where "TAB \<equiv> CHR 0x09"
abbreviation NL :: char where "NL \<equiv> CHR 0x0A"

definition is_space :: "char \<Rightarrow> bool" where
  "is_space c = ((of_char c :: nat) \<in> {9, 10, 11, 12, 13, 28, 29, 30, 31, 32})"

definition is_digit :: "char \<Rightarrow> bool" where
  "is_digit c = (48 \<le> (of_char c :: nat) \<and> (of_char c :: nat) \<le> 57)"

definition is_word :: "char \<Rightarrow> bool" where
  "is_word c = (is_digit c
     \<or> (65 \<le> (of_char c :: nat) \<and> (of_char c :: nat) \<le> 90)
     \<or> (97 \<le> (of_char c :: nat) \<and> (of_char c :: nat) \<le> 122)
     \<or> c = CHR ''_'')"

text \<open>\<open>s.rstrip()\<close> and \<open>s.strip()\<close>: whitespace removed at the end, at both ends.\<close>

definition rstrip :: "string \<Rightarrow> string" where
  "rstrip s = rev (dropWhile is_space (rev s))"

definition strip :: "string \<Rightarrow> string" where
  "strip s = dropWhile is_space (rstrip s)"

text \<open>
  \<open>s.split(sep)\<close> with a separator of one character: every occurrence splits, empty
  fields are kept, and the result is never empty (\<open>"".split(sep) == [""]\<close>).
\<close>

fun split_on :: "char \<Rightarrow> string \<Rightarrow> string list" where
  "split_on sep [] = [[]]"
| "split_on sep (c # cs) =
     (if c = sep then [] # split_on sep cs
      else (case split_on sep cs of
              [] \<Rightarrow> [[c]]
            | w # ws \<Rightarrow> (c # w) # ws))"

text \<open>\<open>sep.join(xs)\<close>.\<close>

fun join :: "string \<Rightarrow> string list \<Rightarrow> string" where
  "join sep [] = []"
| "join sep [x] = x"
| "join sep (x # y # ys) = x @ sep @ join sep (y # ys)"

text \<open>
  \<open>s.replace(old, new)\<close>: every non-overlapping occurrence of \<open>old\<close>, found from the
  left, is replaced; an empty \<open>old\<close> matches before every character and at the end.
\<close>

function replace :: "string \<Rightarrow> string \<Rightarrow> string \<Rightarrow> string" where
  "replace old new s =
     (if old = [] then new @ concat (map (\<lambda>c. c # new) s)
      else if s = [] then []
      else if take (length old) s = old
        then new @ replace old new (drop (length old) s)
      else hd s # replace old new (tl s))"
  by pat_completeness auto
termination
  by (relation "measure (\<lambda>(old, new, s). length s)") (auto simp: Suc_le_eq)

declare replace.simps [simp del]

text \<open>\<open>s.lower()\<close> on ASCII text.\<close>

definition lower_char :: "char \<Rightarrow> char" where
  "lower_char c =
     (if 65 \<le> (of_char c :: nat) \<and> (of_char c :: nat) \<le> 90
      then char_of ((of_char c :: nat) + 32) else c)"

definition lower :: "string \<Rightarrow> string" where
  "lower s = map lower_char s"

text \<open>\<open>str(n)\<close> of an integer: its decimal digits, with a minus sign when negative.\<close>

fun digits_of :: "nat \<Rightarrow> string" where
  "digits_of n =
     (if n < 10 then [char_of (48 + n)]
      else digits_of (n div 10) @ [char_of (48 + n mod 10)])"

declare digits_of.simps [simp del]

definition str_int :: "int \<Rightarrow> string" where
  "str_int n = (if n < 0 then CHR ''-'' # digits_of (nat (- n)) else digits_of (nat n))"

fun py_str :: "pyval \<Rightarrow> string" where
  "py_str (PStr s) = s"
| "py_str (PInt n) = str_int n"

text \<open>
  \<open>int(x)\<close>: an integer is returned as it is; a text is parsed, or \<open>ValueError\<close> is
  raised (\<open>None\<close>). The parser of texts is a parameter \<open>conv\<close> of the model, so that the
  results hold for every accepted literal syntax; \<open>py_int\<close> below is the decimal
  syntax of the language reference on ASCII text: surrounding whitespace, an optional
  sign, and digits that single underscores may separate.
\<close>

fun to_int :: "(string \<Rightarrow> int option) \<Rightarrow> pyval \<Rightarrow> int option" where
  "to_int conv (PInt n) = Some n"
| "to_int conv (PStr s) = conv s"

definition digit_val :: "char \<Rightarrow> nat" where
  "digit_val c = (of_char c :: nat) - 48"

definition dec_digits :: "string \<Rightarrow> nat option" where
  "dec_digits s =
     (let gs = split_on (CHR ''_'') s
      in if list_all (\<lambda>g. g \<noteq> [] \<and> list_all is_digit g) gs
         then Some (foldl (\<lambda>a c. 10 * a + digit_val c) 0 (concat gs))
         else None)"

definition py_int :: "string \<Rightarrow> int option" where
  "py_int s =
     (case strip s of
        [] \<Rightarrow> None
      | c # cs \<Rightarrow>
          if c = CHR ''-'' then map_option (\<lambda>n. - int n) (dec_digits cs)
          else if c = CHR ''+'' then map_option int (dec_digits cs)
          else map_option int (dec_digits (c # cs)))"

text \<open>
  \<open>sorted(xs, key=f)\<close> and \<open>xs.sort()\<close> are stable sorts: of all orderings of \<open>xs\<close> by
  \<open>f\<close>, the one that keeps elements with equal keys in their order in \<open>xs\<close>. That list
  is \<^const>\<open>sort_key\<close>.
\<close>

definition sorted_py :: "('a \<Rightarrow> 'k::linorder) \<Rightarrow> 'a list \<Rightarrow> 'a list" where
  "sorted_py f xs = sort_key f xs"

section \<open>primer_pair_profiling_batch.py\<close>

subsection \<open>The tally table\<close>

text \<open>
  \<open>primer_pairs = defaultdict(dict)\<close>: primer pair \<open>\<rightarrow>\<close> file name \<open>\<rightarrow>\<close> value. Reading a
  missing pair from the \<open>defaultdict\<close> gives a new empty \<open>dict\<close>.
\<close>

type_synonym tallies = "(string, (string, pyval) dict) dict"

definition inner :: "tallies \<Rightarrow> string \<Rightarrow> (string, pyval) dict" where
  "inner st pair = (case map_of st pair of None \<Rightarrow> [] | Some d \<Rightarrow> d)"

text \<open>\<open>primer_pairs[pair][file_name] = v\<close>.\<close>

definition store_set :: "tallies \<Rightarrow> string \<Rightarrow> string \<Rightarrow> pyval \<Rightarrow> tallies" where
  "store_set st pair file_name v =
     AList.update pair (AList.update file_name v (inner st pair)) st"

text \<open>The entry of a pair and a file name in the table, if there is one.\<close>

definition lookup :: "tallies \<Rightarrow> string \<Rightarrow> string \<Rightarrow> pyval option" where
  "lookup st pair file_name =
     (case map_of st pair of None \<Rightarrow> None | Some d \<Rightarrow> map_of d file_name)"

subsection \<open>\<open>tally_primers\<close>\<close>

text \<open>
  The body of the loop over the lines of one tool output:
  \<^verbatim>\<open>
    items = line.split("\t")
    primer_pairs[items[0]][file_name] = items[1]
  \<close>
  The right-hand side is evaluated first, so a line without a tab raises
  \<open>IndexError\<close> before the table is touched.
\<close>

definition ingest_line :: "string \<Rightarrow> string \<Rightarrow> tallies \<Rightarrow> error + tallies" where
  "ingest_line file_name line st =
     (case split_on TAB line of
        item0 # item1 # rest \<Rightarrow> Inr (store_set st item0 file_name (PStr item1))
      | _ \<Rightarrow> Inl IndexError)"

fun ingest_lines :: "string \<Rightarrow> string list \<Rightarrow> tallies \<Rightarrow> error + tallies" where
  "ingest_lines file_name [] st = Inr st"
| "ingest_lines file_name (line # rest) st =
     (case ingest_line file_name line st of
        Inl e \<Rightarrow> Inl e
      | Inr st' \<Rightarrow> ingest_lines file_name rest st')"

text \<open>
  What \<open>subprocess.run\<close> returns for one file, and the files \<open>get_files\<close> found: the
  name of each (\<open>f.name\<close>) with the result of the tool on it.
\<close>

record completed_process =
  returncode :: int
  stdout :: string

text \<open>
  \<open>get_files\<close> globs \<open>*R1*.<ext>\<close> in the directory: for an extension without pattern
  characters, the names that end in \<open>.<ext>\<close> and hold \<open>R1\<close> before that.
\<close>

fun contains :: "string \<Rightarrow> string \<Rightarrow> bool" where
  "contains pat [] = (pat = [])"
| "contains pat (c # cs) = (take (length pat) (c # cs) = pat \<or> contains pat cs)"

definition glob_R1 :: "string \<Rightarrow> string \<Rightarrow> bool" where
  "glob_R1 ext name =
     (let suf = CHR ''.'' # ext; n = length name - length suf
      in length suf \<le> length name \<and> drop n name = suf \<and> contains ''R1'' (take n name))"

text \<open>\<open>file_name = f.name; file_name = file_name.replace("." + args.extension, "")\<close>.\<close>

definition sample_name :: "string \<Rightarrow> string \<Rightarrow> string" where
  "sample_name ext name = replace (CHR ''.'' # ext) [] name"

text \<open>
  The loop over the files, with \<open>file_names\<close> and the table as its state. A non-zero
  return code raises \<open>CalledProcessError\<close> (\<open>check_returncode\<close>); the output is
  \<open>output.stdout.rstrip().split("\n")\<close>.
\<close>

fun tally_loop ::
  "string \<Rightarrow> (string \<times> completed_process) list \<Rightarrow> string list \<Rightarrow> tallies
     \<Rightarrow> error + (string list \<times> tallies)" where
  "tally_loop ext [] file_names st = Inr (file_names, st)"
| "tally_loop ext ((name, output) # files) file_names st =
     (let file_name = sample_name ext name;
          file_names' = file_names @ [file_name]
      in if returncode output \<noteq> 0 then Inl CalledProcessError
         else (case ingest_lines file_name (split_on NL (rstrip (stdout output))) st of
                 Inl e \<Rightarrow> Inl e
               | Inr st' \<Rightarrow> tally_loop ext files file_names' st'))"

definition tally_primers ::
  "string \<Rightarrow> (string \<times> completed_process) list \<Rightarrow> tallies
     \<Rightarrow> error + (string list \<times> tallies)" where
  "tally_primers ext files st = tally_loop ext files [] st"

subsection \<open>\<open>print_tallies\<close>\<close>

text \<open>
  The inner loop of the totals, on the \<open>dict\<close> of one pair:
  \<^verbatim>\<open>
    for file_n in file_names:
        if not file_n in primer_pairs[pair]:
            primer_pairs[pair][file_n] = 0
        tot += int(primer_pairs[pair][file_n])
  \<close>
  It returns the total, or the error raised, and the \<open>dict\<close> as it is then.
\<close>

fun tally_row ::
  "(string \<Rightarrow> int option) \<Rightarrow> string list \<Rightarrow> (string, pyval) dict \<Rightarrow> int
     \<Rightarrow> (error + int) \<times> (string, pyval) dict" where
  "tally_row conv [] d tot = (Inr tot, d)"
| "tally_row conv (file_n # file_names) d tot =
     (let d' = (if map_of d file_n = None then AList.update file_n (PInt 0) d else d)
      in case map_of d' file_n of
           None \<Rightarrow> (Inl KeyError, d')
         | Some v \<Rightarrow>
             (case to_int conv v of
                None \<Rightarrow> (Inl ValueError, d')
              | Some n \<Rightarrow> tally_row conv file_names d' (tot + n)))"

text \<open>
  The outer loop, \<open>for pair in primer_pairs.keys()\<close>, with the table and
  \<open>primer_totals\<close> as its state. The \<open>dict\<close> of the pair is changed in place, so the
  table holds the changed \<open>dict\<close> under the pair.
\<close>

fun totals_loop ::
  "(string \<Rightarrow> int option) \<Rightarrow> string list \<Rightarrow> string list \<Rightarrow> tallies \<Rightarrow> (string, int) dict
     \<Rightarrow> (error + (string, int) dict) \<times> tallies" where
  "totals_loop conv file_names [] st primer_totals = (Inr primer_totals, st)"
| "totals_loop conv file_names (pair # pairs) st primer_totals =
     (case tally_row conv file_names (inner st pair) 0 of
        (Inl e, d') \<Rightarrow> (Inl e, AList.update pair d' st)
      | (Inr tot, d') \<Rightarrow>
          totals_loop conv file_names pairs (AList.update pair d' st)
            (AList.update pair tot primer_totals))"

text \<open>
  One row of the report:
  \<^verbatim>\<open>
    for file_n in file_names:
        freqs.append(primer_pairs[items[0]][file_n])
    freqs = map(str, freqs)
    freqs = "\t".join(freqs)
    print(items[0] + "\t" + freqs, file=out_handle)
  \<close>
\<close>

fun row_freqs :: "(string, pyval) dict \<Rightarrow> string list \<Rightarrow> error + pyval list" where
  "row_freqs d [] = Inr []"
| "row_freqs d (file_n # file_names) =
     (case map_of d file_n of
        None \<Rightarrow> Inl KeyError
      | Some v \<Rightarrow> (case row_freqs d file_names of
                     Inl e \<Rightarrow> Inl e
                   | Inr vs \<Rightarrow> Inr (v # vs)))"

definition row_line :: "string \<Rightarrow> pyval list \<Rightarrow> string" where
  "row_line pair freqs = pair @ [TAB] @ join [TAB] (map py_str freqs)"

text \<open>
  The loop over the sorted items of \<open>primer_totals\<close>; it returns the lines printed and
  the error raised, if any. Every key of \<open>primer_totals\<close> is a pair of the table, so
  reading \<open>primer_pairs[items[0]]\<close> adds nothing to the table here.
\<close>

fun rows_loop ::
  "tallies \<Rightarrow> string list \<Rightarrow> (string \<times> int) list \<Rightarrow> error option \<times> string list" where
  "rows_loop st file_names [] = (None, [])"
| "rows_loop st file_names (items # rest) =
     (case row_freqs (inner st (fst items)) file_names of
        Inl e \<Rightarrow> (Some e, [])
      | Inr freqs \<Rightarrow>
          (case rows_loop st file_names rest of
             (r, ls) \<Rightarrow> (r, row_line (fst items) freqs # ls)))"

text \<open>\<open>key=lambda x: (-x[1], x[0].lower())\<close>.\<close>

definition sort_key_of :: "string \<times> int \<Rightarrow> int \<times> string" where
  "sort_key_of x = (- snd x, lower (fst x))"

text \<open>
  What a call of \<open>print_tallies\<close> leaves: the error it raised, if any, the lines
  written to the output file (the file is closed on every path), and the table.
\<close>

record outcome =
  raised :: "error option"
  written :: "string list"
  store_after :: tallies

definition header_line :: "string list \<Rightarrow> string" where
  "header_line file_names = ''pair'' @ [TAB] @ join [TAB] file_names"

definition print_tallies ::
  "(string \<Rightarrow> int option) \<Rightarrow> string list \<Rightarrow> tallies \<Rightarrow> outcome" where
  "print_tallies conv file_names st =
     (let file_names = sort file_names;
          header = header_line file_names
      in case totals_loop conv file_names (map fst st) st [] of
           (Inl e, st') \<Rightarrow> \<lparr>raised = Some e, written = [header], store_after = st'\<rparr>
         | (Inr primer_totals, st') \<Rightarrow>
             (case rows_loop st' file_names (sorted_py sort_key_of primer_totals) of
                (r, ls) \<Rightarrow> \<lparr>raised = r, written = header # ls, store_after = st'\<rparr>))"

text \<open>The text of the output file: \<open>print\<close> ends every line with a newline.\<close>

definition file_text :: "string list \<Rightarrow> string" where
  "file_text ls = concat (map (\<lambda>l. l @ [NL]) ls)"

subsection \<open>\<open>main\<close>\<close>

text \<open>
  \<open>main\<close> runs \<open>tally_primers\<close> on the table of the module, empty when the script
  starts, and then \<open>print_tallies\<close>. An error of \<open>tally_primers\<close> ends the run before
  the output file is opened: no report (\<open>None\<close>).
\<close>

record run =
  run_raised :: "error option"
  report :: "string list option"

definition main ::
  "(string \<Rightarrow> int option) \<Rightarrow> string \<Rightarrow> (string \<times> completed_process) list \<Rightarrow> run" where
  "main conv ext files =
     (case tally_primers ext files [] of
        Inl e \<Rightarrow> \<lparr>run_raised = Some e, report = None\<rparr>
      | Inr (file_names, st) \<Rightarrow>
          (let r = print_tallies conv file_names st
           in \<lparr>run_raised = raised r, report = Some (written r)\<rparr>))"

section \<open>split_silva.py\<close>

text \<open>
  A sequence record, as far as the script reads it: its description line and its
  sequence. \<open>back_transcribe\<close> writes \<open>T\<close> for \<open>U\<close>, in both cases.
\<close>

record seq_record =
  description :: string
  seq :: string

definition back_transcribe :: "string \<Rightarrow> string" where
  "back_transcribe s =
     map (\<lambda>c. if c = CHR ''U'' then CHR ''T'' else if c = CHR ''u'' then CHR ''t'' else c) s"

text \<open>
  \<open>re.search(r"\.\w+$", s)\<close>: the leftmost dot that a non-empty run of word characters
  follows up to the end of the text, or up to a newline that ends it. \<open>None\<close> when
  there is no match.
\<close>

definition ext_here :: "string \<Rightarrow> bool" where
  "ext_here cs =
     (let w = takeWhile is_word cs; r = dropWhile is_word cs
      in w \<noteq> [] \<and> (r = [] \<or> r = [NL]))"

fun search_ext :: "string \<Rightarrow> string option" where
  "search_ext [] = None"
| "search_ext (c # cs) =
     (if c = CHR ''.'' \<and> ext_here cs then Some (c # takeWhile is_word cs)
      else search_ext cs)"

text \<open>
  \<open>re.search(r"^(\w+)\;", s)\<close>, and its group 1: a non-empty run of word characters
  at the start of the text, with a semicolon after it.
\<close>

definition search_domain :: "string \<Rightarrow> string option" where
  "search_domain s =
     (let w = takeWhile is_word s
      in if w \<noteq> [] \<and> take 1 (dropWhile is_word s) = '';'' then Some w else None)"

text \<open>
  \<open>write_sequences\<close>: for every item of \<open>sequences\<close>, the records are written to
  \<open>silva_file.replace(f_ext, "_" + domain + f_ext)\<close>. \<open>.group()\<close> on a failed search
  raises \<open>AttributeError\<close>. The files written are a \<open>dict\<close> from path to content.
\<close>

definition o_file :: "string \<Rightarrow> string \<Rightarrow> error + string" where
  "o_file silva_file domain =
     (case search_ext silva_file of
        None \<Rightarrow> Inl AttributeError
      | Some f_ext \<Rightarrow> Inr (replace f_ext (''_'' @ domain @ f_ext) silva_file))"

fun write_loop ::
  "string \<Rightarrow> (string \<times> seq_record list) list \<Rightarrow> (string, seq_record list) dict
     \<Rightarrow> error + (string, seq_record list) dict" where
  "write_loop silva_file [] files = Inr files"
| "write_loop silva_file (items # rest) files =
     (case o_file silva_file (fst items) of
        Inl e \<Rightarrow> Inl e
      | Inr path \<Rightarrow> write_loop silva_file rest (AList.update path (snd items) files))"

definition write_sequences ::
  "string \<Rightarrow> (string, seq_record list) dict \<Rightarrow> error + (string, seq_record list) dict" where
  "write_sequences silva_file sequences = write_loop silva_file sequences []"

text \<open>
  The loop of \<open>main\<close> over the records, with \<open>sequences\<close> as its state:
  \<open>description[1]\<close> raises \<open>IndexError\<close> when the description has no space.
\<close>

fun group_loop ::
  "seq_record list \<Rightarrow> (string, seq_record list) dict
     \<Rightarrow> error + (string, seq_record list) dict" where
  "group_loop [] sequences = Inr sequences"
| "group_loop (record # records) sequences =
     (let record = record\<lparr>seq := back_transcribe (seq record)\<rparr>
      in case split_on (CHR '' '') (description record) of
           d0 # d1 # ds \<Rightarrow>
             (case search_domain d1 of
                None \<Rightarrow> Inl AttributeError
              | Some domain \<Rightarrow>
                  (case map_of sequences domain of
                     Some rs \<Rightarrow>
                       group_loop records (AList.update domain (rs @ [record]) sequences)
                   | None \<Rightarrow>
                       group_loop records (AList.update domain [record] sequences)))
         | _ \<Rightarrow> Inl IndexError)"

definition split_silva ::
  "string \<Rightarrow> seq_record list \<Rightarrow> error + (string, seq_record list) dict" where
  "split_silva silva_file records =
     (case group_loop records [] of
        Inl e \<Rightarrow> Inl e
      | Inr sequences \<Rightarrow> write_sequences silva_file sequences)"

section \<open>The notions of the specification\<close>

text \<open>
  \<open>count_for(pair, sample)\<close>: the stored count, or zero when the combination is not
  in the table; on one \<open>dict\<close> of the table it is \<open>cell\<close>.
\<close>

definition cell :: "(string, pyval) dict \<Rightarrow> string \<Rightarrow> pyval" where
  "cell d f = (case map_of d f of None \<Rightarrow> PInt 0 | Some v \<Rightarrow> v)"

definition count_for :: "tallies \<Rightarrow> string \<Rightarrow> string \<Rightarrow> pyval" where
  "count_for st pair file_name =
     (case lookup st pair file_name of None \<Rightarrow> PInt 0 | Some v \<Rightarrow> v)"

text \<open>
  The total of a row: the sum of \<open>count_for\<close> over the columns, every count read as
  an integer (a count that is no integer adds nothing here; the program raises
  before it uses such a total).
\<close>

definition int_or_zero :: "(string \<Rightarrow> int option) \<Rightarrow> pyval \<Rightarrow> int" where
  "int_or_zero conv v = (case to_int conv v of None \<Rightarrow> 0 | Some n \<Rightarrow> n)"

definition row_total :: "(string \<Rightarrow> int option) \<Rightarrow> tallies \<Rightarrow> string list \<Rightarrow> string \<Rightarrow> int" where
  "row_total conv st file_names pair =
     sum_list (map (\<lambda>f. int_or_zero conv (count_for st pair f)) file_names)"

text \<open>
  The key by which the rows are ordered: the total descending (its negation
  ascending), then the identity in lower case ascending.
\<close>

definition row_key ::
  "(string \<Rightarrow> int option) \<Rightarrow> tallies \<Rightarrow> string list \<Rightarrow> string \<Rightarrow> int \<times> string" where
  "row_key conv st file_names pair = (- row_total conv st file_names pair, lower pair)"

text \<open>
  A data row of the report for a pair: the identity, then one count per column, in
  the order of the columns, all separated by tabs.
\<close>

definition row_text :: "tallies \<Rightarrow> string list \<Rightarrow> string \<Rightarrow> string" where
  "row_text st file_names pair =
     pair @ [TAB] @ join [TAB] (map (\<lambda>f. py_str (count_for st pair f)) file_names)"

text \<open>
  The text of one count cell: the stored text as it is, the decimal digits of a
  stored integer, \<open>0\<close> for a combination that is not in the table.
\<close>

definition cell_text :: "tallies \<Rightarrow> string \<Rightarrow> string \<Rightarrow> string" where
  "cell_text st pair file_name =
     (case lookup st pair file_name of
        None \<Rightarrow> ''0''
      | Some (PStr s) \<Rightarrow> s
      | Some (PInt n) \<Rightarrow> str_int n)"

section \<open>Example runs\<close>

text \<open>
  Two files, as in the end-to-end scenario of the specification: the tool prints
  \<open>A 10\<close> and \<open>B 5\<close> for the first, \<open>A 7\<close> for the second.
\<close>

definition ex_files :: "(string \<times> completed_process) list" where
  "ex_files =
     [(''S1_R1.fq'',
       \<lparr>returncode = 0, stdout = ''A'' @ [TAB] @ ''10'' @ [NL] @ ''B'' @ [TAB] @ ''5'' @ [NL]\<rparr>),
      (''S2_R1.fq'',
       \<lparr>returncode = 0, stdout = ''A'' @ [TAB] @ ''7'' @ [NL]\<rparr>)]"

definition ex_store :: tallies where
  "ex_store =
     [(''A'', [(''S1_R1'', PStr ''10''), (''S2_R1'', PStr ''7'')]),
      (''B'', [(''S1_R1'', PStr ''5'')])]"

text \<open>
  A table with equal totals: \<open>its\<close>, \<open>16S\<close> and \<open>ITS\<close> have 5 reads each, \<open>v4\<close> has 80.
\<close>

definition ex_ties :: tallies where
  "ex_ties =
     [(''its'', [(''s1'', PStr ''5'')]),
      (''16S'', [(''s1'', PStr ''5'')]),
      (''ITS'', [(''s1'', PStr ''5'')]),
      (''v4'', [(''s1'', PStr ''80'')])]"

text \<open>The three rows of the ordering example of the specification.\<close>

definition ex_spec_rows :: tallies where
  "ex_spec_rows =
     [(''16S_V4'', [(''s1'', PStr ''50'')]),
      (''16S_v3'', [(''s1'', PStr ''50'')]),
      (''ITS'', [(''s1'', PStr ''80'')])]"

text \<open>Outputs of the tool with a count that is no integer, and with a third field.\<close>

definition ex_malformed :: "(string \<times> completed_process) list" where
  "ex_malformed =
     [(''S1_R1.fq'', \<lparr>returncode = 0, stdout = ''A'' @ [TAB] @ ''abc'' @ [NL]\<rparr>)]"

definition ex_three_fields :: "(string \<times> completed_process) list" where
  "ex_three_fields =
     [(''S1_R1.fq'',
       \<lparr>returncode = 0, stdout = ''A'' @ [TAB] @ ''5'' @ [TAB] @ ''junk'' @ [NL]\<rparr>)]"

definition ex_no_tab :: "(string \<times> completed_process) list" where
  "ex_no_tab =
     [(''S1_R1.fq'', \<lparr>returncode = 0, stdout = ''A 5'' @ [NL]\<rparr>)]"

definition ex_leading_zeros :: "(string \<times> completed_process) list" where
  "ex_leading_zeros =
     [(''S1_R1.fq'', \<lparr>returncode = 0, stdout = ''A'' @ [TAB] @ ''007'' @ [NL]\<rparr>),
      (''S2_R1.fq'', \<lparr>returncode = 0, stdout = ''B'' @ [TAB] @ ''3'' @ [NL]\<rparr>)]"

text \<open>The table that \<open>tally_primers\<close> builds from \<open>ex_leading_zeros\<close>.\<close>

definition ex_zeros_store :: tallies where
  "ex_zeros_store = [(''A'', [(''S1_R1'', PStr ''007'')]), (''B'', [(''S2_R1'', PStr ''3'')])]"

text \<open>A record of the sequence database.\<close>

definition ex_record :: seq_record where
  "ex_record = \<lparr>description = ''AB001 Bacteria;Proteobacteria;'', seq = ''ACGU''\<rparr>"

section \<open>Properties of the program\<close>

lemma tally_row_keeps:
  "map_of d f = Some v \<Longrightarrow> map_of (snd (tally_row conv fns d t)) f = Some v"
proof (induction fns arbitrary: d t)
  case Nil
  then show ?case by simp
next
  case (Cons g fns)
  let ?d = "if map_of d g = None then AList.update g (PInt 0) d else d"
  have md: "map_of ?d f = Some v"
    using Cons.prems by (auto simp: update_conv')
  have "map_of ?d g \<noteq> None" by (simp add: update_conv')
  then obtain w where w: "map_of ?d g = Some w" by blast
  show ?case
  proof (cases "to_int conv w")
    case None
    with w md show ?thesis by (simp add: Let_def)
  next
    case (Some n)
    with w Cons.IH[OF md, of "t + n"] show ?thesis by (simp add: Let_def)
  qed
qed

lemma tally_row_new:
  "map_of (snd (tally_row conv fns d t)) f = Some v \<Longrightarrow> map_of d f = None
     \<Longrightarrow> v = PInt 0 \<and> f \<in> set fns"
proof (induction fns arbitrary: d t)
  case Nil
  then show ?case by simp
next
  case (Cons g fns)
  show ?case
  proof (cases "map_of d g")
    case None
    let ?d = "AList.update g (PInt 0) d"
    show ?thesis
    proof (cases "f = g")
      case True
      have "map_of ?d g = Some (PInt 0)" by (simp add: update_conv')
      from tally_row_keeps[OF this, of conv fns "t"] Cons.prems None True
      show ?thesis by (simp add: Let_def update_conv')
    next
      case False
      then have "map_of ?d f = None" using Cons.prems(2) by (simp add: update_conv')
      with Cons.IH[of ?d t] Cons.prems(1) None show ?thesis
        by (simp add: Let_def update_conv')
    qed
  next
    case (Some w)
    with Cons.IH[of d] Cons.prems show ?thesis
      by (auto simp: Let_def split: option.splits)
  qed
qed

lemma tally_row_error:
  "fst (tally_row conv fns d t) = Inl e \<Longrightarrow>
     e = ValueError \<and> (\<exists>f \<in> set fns. \<exists>s. map_of d f = Some (PStr s) \<and> conv s = None)"
proof (induction fns arbitrary: d t)
  case Nil
  then show ?case by simp
next
  case (Cons g fns)
  show ?case
  proof (cases "map_of d g")
    case None
    let ?d = "AList.update g (PInt 0) d"
    from Cons.prems None have "fst (tally_row conv fns ?d t) = Inl e"
      by (simp add: Let_def update_conv')
    from Cons.IH[OF this] obtain f s where
      e: "e = ValueError" and f: "f \<in> set fns" "map_of ?d f = Some (PStr s)" "conv s = None"
      by blast
    from f(2) have "f \<noteq> g" by (auto simp: update_conv')
    with f(2) have "map_of d f = Some (PStr s)" by (simp add: update_conv')
    with e f show ?thesis by auto
  next
    case (Some w)
    show ?thesis
    proof (cases "to_int conv w")
      case None
      then obtain s where "w = PStr s" "conv s = None" by (cases w) auto
      with Cons.prems Some None show ?thesis by (auto simp: Let_def)
    next
      case (Some n)
      with Cons.prems \<open>map_of d g = Some w\<close>
      have "fst (tally_row conv fns d (t + n)) = Inl e" by (simp add: Let_def)
      from Cons.IH[OF this] show ?thesis by auto
    qed
  qed
qed

lemma tally_row_bad:
  "f \<in> set fns \<Longrightarrow> map_of d f = Some (PStr s) \<Longrightarrow> conv s = None
     \<Longrightarrow> fst (tally_row conv fns d t) = Inl ValueError"
proof (induction fns arbitrary: d t)
  case Nil
  then show ?case by simp
next
  case (Cons g fns)
  show ?case
  proof (cases "f = g")
    case True
    with Cons.prems show ?thesis by (simp add: Let_def)
  next
    case False
    with Cons.prems have fin: "f \<in> set fns" by simp
    let ?d = "if map_of d g = None then AList.update g (PInt 0) d else d"
    have md: "map_of ?d f = Some (PStr s)"
      using Cons.prems(2) False by (simp add: update_conv')
    have "map_of ?d g \<noteq> None" by (simp add: update_conv')
    then obtain w where w: "map_of ?d g = Some w" by blast
    show ?thesis
    proof (cases "to_int conv w")
      case None
      with w show ?thesis by (simp add: Let_def)
    next
      case (Some n)
      with w Cons.IH[OF fin md Cons.prems(3), of "t + n"] show ?thesis
        by (simp add: Let_def)
    qed
  qed
qed

lemma tally_row_ok:
  "fst (tally_row conv fns d t) = Inr n \<Longrightarrow>
     n = t + sum_list (map (\<lambda>f. int_or_zero conv (cell d f)) fns)
     \<and> (\<forall>f \<in> set fns. map_of (snd (tally_row conv fns d t)) f = Some (cell d f))"
proof (induction fns arbitrary: d t)
  case Nil
  then show ?case by simp
next
  case (Cons g fns)
  let ?d = "if map_of d g = None then AList.update g (PInt 0) d else d"
  have cg: "map_of ?d g = Some (cell d g)"
    by (auto simp: update_conv' cell_def)
  have same: "cell ?d f = cell d f" for f
    by (auto simp: update_conv' cell_def)
  from Cons.prems cg obtain m where m: "to_int conv (cell d g) = Some m"
    by (cases "to_int conv (cell d g)") (auto simp: Let_def)
  with Cons.prems cg have rest: "fst (tally_row conv fns ?d (t + m)) = Inr n"
    by (simp add: Let_def)
  have unf: "tally_row conv (g # fns) d t = tally_row conv fns ?d (t + m)"
    using cg m by (simp add: Let_def)
  from Cons.IH[OF rest] have
    n: "n = t + m + sum_list (map (\<lambda>f. int_or_zero conv (cell ?d f)) fns)" and
    all: "\<forall>f \<in> set fns. map_of (snd (tally_row conv fns ?d (t + m))) f = Some (cell ?d f)"
    by auto
  have "map_of (snd (tally_row conv fns ?d (t + m))) g = Some (cell d g)"
    by (rule tally_row_keeps[OF cg])
  with n all m show ?case
    unfolding unf by (simp add: same int_or_zero_def)
qed

lemma tally_row_idem:
  "tally_row conv fns (snd (tally_row conv fns d t)) t = tally_row conv fns d t"
proof (induction fns arbitrary: d t)
  case Nil
  then show ?case by simp
next
  case (Cons g fns)
  let ?d = "if map_of d g = None then AList.update g (PInt 0) d else d"
  have "map_of ?d g \<noteq> None" by (simp add: update_conv')
  then obtain w where w: "map_of ?d g = Some w" by blast
  show ?case
  proof (cases "to_int conv w")
    case None
    with w have "tally_row conv (g # fns) d t = (Inl ValueError, ?d)"
      by (simp add: Let_def)
    moreover from w None have "tally_row conv (g # fns) ?d t = (Inl ValueError, ?d)"
      by (simp add: Let_def)
    ultimately show ?thesis by simp
  next
    case (Some n)
    let ?r = "tally_row conv fns ?d (t + n)"
    from w Some have unf: "tally_row conv (g # fns) d t = ?r" by (simp add: Let_def)
    have "map_of (snd ?r) g = Some w" by (rule tally_row_keeps[OF w])
    with Some have "tally_row conv (g # fns) (snd ?r) t = tally_row conv fns (snd ?r) (t + n)"
      by (simp add: Let_def)
    with Cons.IH[of ?d "t + n"] unf show ?thesis by simp
  qed
qed


lemma map_of_inner: "map_of (inner st p) f = lookup st p f"
  by (simp add: inner_def lookup_def split: option.splits)

lemma cell_inner: "cell (inner st p) f = count_for st p f"
  by (simp add: cell_def count_for_def map_of_inner)

lemma inner_update: "inner (AList.update q d st) p = (if p = q then d else inner st p)"
  by (simp add: inner_def update_conv')

lemma lookup_update:
  "lookup (AList.update q d st) p f = (if p = q then map_of d f else lookup st p f)"
  by (simp add: lookup_def update_conv')

lemma update_keys_present:
  "k \<in> set (map fst al) \<Longrightarrow> map fst (AList.update k v al) = map fst al"
  by (simp add: update_keys)

lemma totals_loop_keys:
  "set ps \<subseteq> set (map fst st) \<Longrightarrow>
     map fst (snd (totals_loop conv fns ps st tots)) = map fst st"
proof (induction ps arbitrary: st tots)
  case Nil
  then show ?case by simp
next
  case (Cons p ps)
  obtain r d' where r: "tally_row conv fns (inner st p) 0 = (r, d')"
    by (cases "tally_row conv fns (inner st p) 0")
  let ?st = "AList.update p d' st"
  from Cons.prems have k: "map fst ?st = map fst st"
    by (simp add: update_keys_present)
  show ?case
  proof (cases r)
    case (Inl e)
    with r k show ?thesis by simp
  next
    case (Inr tot)
    from Cons.prems k have "set ps \<subseteq> set (map fst ?st)" by simp
    from Cons.IH[OF this] r Inr k show ?thesis by simp
  qed
qed

lemma totals_loop_keeps:
  "lookup st q f = Some v \<Longrightarrow> lookup (snd (totals_loop conv fns ps st tots)) q f = Some v"
proof (induction ps arbitrary: st tots)
  case Nil
  then show ?case by simp
next
  case (Cons p ps)
  obtain r d' where r: "tally_row conv fns (inner st p) 0 = (r, d')"
    by (cases "tally_row conv fns (inner st p) 0")
  let ?st = "AList.update p d' st"
  have d': "d' = snd (tally_row conv fns (inner st p) 0)" using r by simp
  have l: "lookup ?st q f = Some v"
    using Cons.prems tally_row_keeps[of "inner st p" f v conv fns 0]
    by (auto simp: lookup_update d' map_of_inner)
  show ?case
  proof (cases r)
    case (Inl e)
    with r l show ?thesis by simp
  next
    case (Inr tot)
    with r Cons.IH[OF l] show ?thesis by simp
  qed
qed

lemma totals_loop_new:
  "lookup (snd (totals_loop conv fns ps st tots)) q f = Some v \<Longrightarrow> lookup st q f = None
     \<Longrightarrow> v = PInt 0 \<and> f \<in> set fns \<and> q \<in> set ps"
proof (induction ps arbitrary: st tots)
  case Nil
  then show ?case by simp
next
  case (Cons p ps)
  obtain r d' where r: "tally_row conv fns (inner st p) 0 = (r, d')"
    by (cases "tally_row conv fns (inner st p) 0")
  let ?st = "AList.update p d' st"
  have d': "d' = snd (tally_row conv fns (inner st p) 0)" using r by simp
  have step: "v = PInt 0 \<and> f \<in> set fns \<and> q = p" if "lookup ?st q f = Some v"
    using that Cons.prems(2) tally_row_new[of conv fns "inner st p" 0 f v]
    by (auto simp: lookup_update d' map_of_inner split: if_splits)
  show ?case
  proof (cases r)
    case (Inl e)
    with r Cons.prems(1) step show ?thesis by simp
  next
    case (Inr tot)
    show ?thesis
    proof (cases "lookup ?st q f")
      case None
      from Cons.IH[OF _ None, of "AList.update p tot tots"] r Inr Cons.prems(1)
      show ?thesis by simp
    next
      case (Some w)
      from totals_loop_keeps[OF Some, of conv fns ps "AList.update p tot tots"]
        r Inr Cons.prems(1)
      have "w = v" by simp
      with Some step show ?thesis by simp
    qed
  qed
qed

lemma totals_loop_error:
  "fst (totals_loop conv fns ps st tots) = Inl e \<Longrightarrow>
     e = ValueError \<and>
     (\<exists>p \<in> set ps. \<exists>f \<in> set fns. \<exists>s. lookup st p f = Some (PStr s) \<and> conv s = None)"
proof (induction ps arbitrary: st tots)
  case Nil
  then show ?case by simp
next
  case (Cons p ps)
  obtain r d' where r: "tally_row conv fns (inner st p) 0 = (r, d')"
    by (cases "tally_row conv fns (inner st p) 0")
  let ?st = "AList.update p d' st"
  have d': "d' = snd (tally_row conv fns (inner st p) 0)" using r by simp
  show ?case
  proof (cases r)
    case (Inl e')
    with r Cons.prems have "e' = e" by simp
    with r Inl tally_row_error[of conv fns "inner st p" 0 e]
    show ?thesis by (auto simp: map_of_inner)
  next
    case (Inr tot)
    with r Cons.prems
    have "fst (totals_loop conv fns ps ?st (AList.update p tot tots)) = Inl e" by simp
    from Cons.IH[OF this] obtain q f s where
      e: "e = ValueError" and q: "q \<in> set ps" "f \<in> set fns"
      "lookup ?st q f = Some (PStr s)" "conv s = None"
      by blast
    have "lookup st q f = Some (PStr s)"
    proof (cases "lookup st q f")
      case None
      with q(3) tally_row_new[of conv fns "inner st p" 0 f "PStr s"]
      show ?thesis
        by (auto simp: lookup_update d' map_of_inner split: if_splits)
    next
      case (Some w)
      with q(3) tally_row_keeps[of "inner st p" f w conv fns 0]
      show ?thesis
        by (auto simp: lookup_update d' map_of_inner split: if_splits)
    qed
    with q(1,2,4) have "\<exists>p \<in> set (p # ps). \<exists>f \<in> set fns. \<exists>s.
        lookup st p f = Some (PStr s) \<and> conv s = None"
      by (intro bexI[of _ q] bexI[of _ f] exI[of _ s]) simp_all
    with e show ?thesis by simp
  qed
qed

lemma totals_loop_bad:
  "p \<in> set ps \<Longrightarrow> f \<in> set fns \<Longrightarrow> lookup st p f = Some (PStr s) \<Longrightarrow> conv s = None
     \<Longrightarrow> fst (totals_loop conv fns ps st tots) = Inl ValueError"
proof (induction ps arbitrary: st tots)
  case Nil
  then show ?case by simp
next
  case (Cons q ps)
  obtain r d' where r: "tally_row conv fns (inner st q) 0 = (r, d')"
    by (cases "tally_row conv fns (inner st q) 0")
  let ?st = "AList.update q d' st"
  have d': "d' = snd (tally_row conv fns (inner st q) 0)" using r by simp
  show ?case
  proof (cases r)
    case (Inl e)
    with r tally_row_error[of conv fns "inner st q" 0 e] show ?thesis by simp
  next
    case (Inr tot)
    have "p \<noteq> q"
    proof
      assume "p = q"
      with Cons.prems have "fst (tally_row conv fns (inner st q) 0) = Inl ValueError"
        by (intro tally_row_bad[of f fns _ s]) (simp_all add: map_of_inner)
      with r Inr show False by simp
    qed
    with Cons.prems have "p \<in> set ps" "lookup ?st p f = Some (PStr s)"
      by (simp_all add: lookup_update)
    from Cons.IH[OF this(1) Cons.prems(2) this(2) Cons.prems(4)] r Inr
    show ?thesis by simp
  qed
qed

lemma count_for_update_other:
  "p \<noteq> q \<Longrightarrow> count_for (AList.update q d st) p f = count_for st p f"
  by (simp add: count_for_def lookup_update)

lemma totals_loop_ok:
  "fst (totals_loop conv fns ps st tots) = Inr T \<Longrightarrow> distinct ps
     \<Longrightarrow> set ps \<inter> fst ` set tots = {} \<Longrightarrow>
     T = tots @ map (\<lambda>p. (p, row_total conv st fns p)) ps
     \<and> (\<forall>p \<in> set ps. \<forall>f \<in> set fns.
          lookup (snd (totals_loop conv fns ps st tots)) p f = Some (count_for st p f))"
proof (induction ps arbitrary: st tots)
  case Nil
  then show ?case by simp
next
  case (Cons p ps)
  obtain r d' where r: "tally_row conv fns (inner st p) 0 = (r, d')"
    by (cases "tally_row conv fns (inner st p) 0")
  let ?st = "AList.update p d' st"
  have d': "d' = snd (tally_row conv fns (inner st p) 0)" using r by simp
  from Cons.prems(1) r obtain tot where tot: "r = Inr tot"
    by (cases r) auto
  let ?tots = "AList.update p tot tots"
  have unf: "totals_loop conv fns (p # ps) st tots = totals_loop conv fns ps ?st ?tots"
    using r tot by simp
  have pn: "p \<notin> fst ` set tots" using Cons.prems(3) by auto
  have tots: "?tots = tots @ [(p, tot)]"
    using pn by (induction tots) auto
  from r tot have "fst (tally_row conv fns (inner st p) 0) = Inr tot" by simp
  from tally_row_ok[OF this] have
    tv: "tot = row_total conv st fns p" and
    filled: "\<forall>f \<in> set fns. map_of d' f = Some (count_for st p f)"
    by (simp_all add: row_total_def cell_inner d')
  have rest: "fst (totals_loop conv fns ps ?st ?tots) = Inr T"
    using Cons.prems(1) unf by simp
  have dis: "distinct ps" "set ps \<inter> fst ` set ?tots = {}"
    using Cons.prems(2,3) by (auto simp: dom_update)
  from Cons.IH[OF rest dis] have
    T: "T = ?tots @ map (\<lambda>q. (q, row_total conv ?st fns q)) ps" and
    L: "\<forall>q \<in> set ps. \<forall>f \<in> set fns.
          lookup (snd (totals_loop conv fns ps ?st ?tots)) q f = Some (count_for ?st q f)"
    by auto
  have other: "count_for ?st q f = count_for st q f" if "q \<in> set ps" for q f
    using that Cons.prems(2) by (intro count_for_update_other) auto
  have rt: "map (\<lambda>q. (q, row_total conv ?st fns q)) ps
            = map (\<lambda>q. (q, row_total conv st fns q)) ps"
    by (rule map_cong) (simp_all add: row_total_def other)
  have hd: "lookup (snd (totals_loop conv fns ps ?st ?tots)) p f = Some (count_for st p f)"
    if "f \<in> set fns" for f
  proof -
    from that filled have "lookup ?st p f = Some (count_for st p f)"
      by (simp add: lookup_update)
    then show ?thesis by (rule totals_loop_keeps)
  qed
  have T': "T = tots @ map (\<lambda>q. (q, row_total conv st fns q)) (p # ps)"
    unfolding T tots rt by (simp add: tv)
  have L': "lookup (snd (totals_loop conv fns ps ?st ?tots)) q f = Some (count_for st q f)"
    if "q \<in> set (p # ps)" "f \<in> set fns" for q f
    using that L hd other by auto
  show ?case
    unfolding unf using T' L' by blast
qed

lemma totals_loop_untouched:
  "p \<notin> set ps \<Longrightarrow> map_of (snd (totals_loop conv fns ps st tots)) p = map_of st p"
proof (induction ps arbitrary: st tots)
  case Nil
  then show ?case by simp
next
  case (Cons q ps)
  obtain r d' where r: "tally_row conv fns (inner st q) 0 = (r, d')"
    by (cases "tally_row conv fns (inner st q) 0")
  from Cons.prems have "p \<noteq> q" "p \<notin> set ps" by auto
  with Cons.IH[of "AList.update q d' st"] r show ?case
    by (cases r) (auto simp: update_conv')
qed

lemma totals_loop_idem:
  "distinct ps \<Longrightarrow>
     totals_loop conv fns ps (snd (totals_loop conv fns ps st tots)) tots
       = totals_loop conv fns ps st tots"
proof (induction ps arbitrary: st tots)
  case Nil
  then show ?case by simp
next
  case (Cons p ps)
  obtain r d' where r: "tally_row conv fns (inner st p) 0 = (r, d')"
    by (cases "tally_row conv fns (inner st p) 0")
  let ?st = "AList.update p d' st"
  have d': "d' = snd (tally_row conv fns (inner st p) 0)" using r by simp
  have again: "tally_row conv fns d' 0 = (r, d')"
    using tally_row_idem[of conv fns "inner st p" 0] r by simp
  show ?case
  proof (cases r)
    case (Inl e)
    with r again show ?thesis by (simp add: inner_update)
  next
    case (Inr tot)
    let ?tots = "AList.update p tot tots"
    let ?R = "totals_loop conv fns ps ?st ?tots"
    from r Inr have unf: "totals_loop conv fns (p # ps) st tots = ?R" by simp
    from Cons.prems have "p \<notin> set ps" by simp
    from totals_loop_untouched[OF this, of conv fns ?st ?tots]
    have mp: "map_of (snd ?R) p = Some d'" by (simp add: update_conv')
    then have "inner (snd ?R) p = d'" "AList.update p d' (snd ?R) = snd ?R"
      by (simp_all add: inner_def update_triv)
    with again Inr
    have "totals_loop conv fns (p # ps) (snd ?R) tots = totals_loop conv fns ps (snd ?R) ?tots"
      by simp
    also have "\<dots> = ?R" using Cons.IH[of ?st ?tots] Cons.prems by simp
    finally show ?thesis using unf by simp
  qed
qed

lemma row_freqs_filled:
  "\<forall>f \<in> set fns. map_of d f \<noteq> None \<Longrightarrow> row_freqs d fns = Inr (map (cell d) fns)"
  by (induction fns) (auto simp: cell_def)

lemma rows_loop_filled:
  "\<forall>x \<in> set items. \<forall>f \<in> set fns. lookup st (fst x) f \<noteq> None \<Longrightarrow>
     rows_loop st fns items
       = (None, map (\<lambda>x. row_line (fst x) (map (count_for st (fst x)) fns)) items)"
proof (induction items)
  case Nil
  then show ?case by simp
next
  case (Cons x items)
  from Cons.prems have "\<forall>f \<in> set fns. map_of (inner st (fst x)) f \<noteq> None"
    by (simp add: map_of_inner)
  then have "row_freqs (inner st (fst x)) fns = Inr (map (cell (inner st (fst x))) fns)"
    by (rule row_freqs_filled)
  moreover have "map (cell (inner st (fst x))) fns = map (count_for st (fst x)) fns"
    by (simp add: cell_inner)
  ultimately show ?case using Cons by simp
qed

lemma insort_key_map:
  "insort_key f (g x) (map g xs) = map g (insort_key (\<lambda>y. f (g y)) x xs)"
  by (induction xs) auto

lemma sort_key_map: "sort_key f (map g xs) = map g (sort_key (\<lambda>y. f (g y)) xs)"
  by (induction xs) (simp_all add: insort_key_map)

lemma print_tallies_unfold:
  "totals_loop conv (sort fns) (map fst st) st [] = (res, st') \<Longrightarrow>
   print_tallies conv fns st =
     (case res of
        Inl e \<Rightarrow> \<lparr>raised = Some e, written = [header_line (sort fns)], store_after = st'\<rparr>
      | Inr primer_totals \<Rightarrow>
          (case rows_loop st' (sort fns) (sorted_py sort_key_of primer_totals) of
             (r, ls) \<Rightarrow>
               \<lparr>raised = r, written = header_line (sort fns) # ls, store_after = st'\<rparr>))"
  by (simp add: print_tallies_def Let_def split: sum.splits)

lemma store_after_print_tallies:
  "store_after (print_tallies conv fns st)
     = snd (totals_loop conv (sort fns) (map fst st) st [])"
  by (simp add: print_tallies_def Let_def split: sum.splits prod.splits)

lemma print_tallies_bad:
  assumes "p \<in> set (map fst st)" "f \<in> set fns"
    and "lookup st p f = Some (PStr s)" "conv s = None"
  shows "raised (print_tallies conv fns st) = Some ValueError \<and>
         written (print_tallies conv fns st) = [header_line (sort fns)]"
proof -
  obtain res st' where t: "totals_loop conv (sort fns) (map fst st) st [] = (res, st')"
    by (cases "totals_loop conv (sort fns) (map fst st) st []")
  from assms have "fst (totals_loop conv (sort fns) (map fst st) st []) = Inl ValueError"
    by (intro totals_loop_bad[of p _ f _ _ s]) simp_all
  with t have "res = Inl ValueError" by simp
  with print_tallies_unfold[OF t] show ?thesis by simp
qed

lemma count_for_after:
  assumes "\<And>v. lookup st p f = Some v \<Longrightarrow> lookup st' p f = Some v"
    and "\<And>v. lookup st' p f = Some v \<Longrightarrow> lookup st p f = None \<Longrightarrow> v = PInt 0"
  shows "count_for st' p f = count_for st p f"
proof (cases "lookup st p f")
  case None
  with assms(2) show ?thesis
    by (cases "lookup st' p f") (auto simp: count_for_def)
next
  case (Some v)
  with assms(1) show ?thesis by (simp add: count_for_def)
qed

lemma print_tallies_ok:
  assumes d: "distinct (map fst st)"
    and t: "totals_loop conv (sort fns) (map fst st) st [] = (Inr T, st')"
  shows "print_tallies conv fns st =
           \<lparr>raised = None,
            written = header_line (sort fns) #
              map (row_text st (sort fns))
                (sort_key (row_key conv st (sort fns)) (map fst st)),
            store_after = st'\<rparr>"
proof -
  let ?fs = "sort fns" and ?ks = "map fst st"
  from t have ok: "fst (totals_loop conv ?fs ?ks st []) = Inr T" by simp
  from totals_loop_ok[OF ok d] t have
    T: "T = map (\<lambda>p. (p, row_total conv st ?fs p)) ?ks" and
    L: "\<forall>p \<in> set ?ks. \<forall>f \<in> set ?fs. lookup st' p f = Some (count_for st p f)"
    by simp_all
  have st': "st' = snd (totals_loop conv ?fs ?ks st [])" using t by simp
  have same: "count_for st' p f = count_for st p f" for p f
    by (rule count_for_after)
      (auto simp: st' dest: totals_loop_keeps totals_loop_new)
  let ?items = "sorted_py sort_key_of T"
  have items: "?items = map (\<lambda>p. (p, row_total conv st ?fs p))
                          (sort_key (row_key conv st ?fs) ?ks)"
    unfolding sorted_py_def T sort_key_map
    by (simp add: comp_def sort_key_of_def row_key_def)
  have "\<forall>x \<in> set ?items. \<forall>f \<in> set ?fs. lookup st' (fst x) f \<noteq> None"
    using L unfolding items by auto
  from rows_loop_filled[OF this]
  have "rows_loop st' ?fs ?items
          = (None, map (row_text st ?fs) (sort_key (row_key conv st ?fs) ?ks))"
    unfolding items by (simp add: comp_def same row_text_def row_line_def)
  with print_tallies_unfold[OF t] show ?thesis by simp
qed

lemma print_tallies_raised:
  assumes d: "distinct (map fst st)"
    and r: "raised (print_tallies conv fns st) = Some e"
  shows "e = ValueError \<and> written (print_tallies conv fns st) = [header_line (sort fns)] \<and>
         (\<exists>p \<in> set (map fst st). \<exists>f \<in> set fns. \<exists>s.
            lookup st p f = Some (PStr s) \<and> conv s = None)"
proof -
  obtain res st' where t: "totals_loop conv (sort fns) (map fst st) st [] = (res, st')"
    by (cases "totals_loop conv (sort fns) (map fst st) st []")
  show ?thesis
  proof (cases res)
    case (Inl e')
    with print_tallies_unfold[OF t] r have "e' = e" by simp
    with t Inl have "fst (totals_loop conv (sort fns) (map fst st) st []) = Inl e" by simp
    from totals_loop_error[OF this] print_tallies_unfold[OF t] Inl
    show ?thesis by simp
  next
    case (Inr T)
    with print_tallies_ok[OF d] t r show ?thesis by simp
  qed
qed

lemma print_tallies_idem:
  assumes d: "distinct (map fst st)"
  shows "print_tallies conv fns (store_after (print_tallies conv fns st))
           = print_tallies conv fns st"
proof -
  let ?fs = "sort fns" and ?ks = "map fst st"
  obtain res st' where t: "totals_loop conv ?fs ?ks st [] = (res, st')"
    by (cases "totals_loop conv ?fs ?ks st []")
  have st': "st' = snd (totals_loop conv ?fs ?ks st [])" using t by simp
  have after: "store_after (print_tallies conv fns st) = st'"
    by (simp add: store_after_print_tallies st')
  have keys: "map fst st' = ?ks"
    unfolding st' by (rule totals_loop_keys) simp
  from totals_loop_idem[OF d, of conv ?fs st "[]"] t
  have "totals_loop conv ?fs (map fst st') st' [] = (res, st')"
    by (simp add: keys)
  from print_tallies_unfold[OF this] print_tallies_unfold[OF t] after
  show ?thesis by simp
qed

subsection \<open>The order of the rows\<close>

lemma row_key_le:
  "row_key conv st fs p \<le> row_key conv st fs q \<longleftrightarrow>
     row_total conv st fs q < row_total conv st fs p
     \<or> (row_total conv st fs q = row_total conv st fs p \<and> lower p \<le> lower q)"
  by (auto simp: row_key_def)

lemma row_key_eq:
  "row_key conv st fs p = (- t, l) \<longleftrightarrow> row_total conv st fs p = t \<and> lower p = l"
  by (auto simp: row_key_def)

lemma print_tallies_written:
  assumes "distinct (map fst st)"
    and "raised (print_tallies conv fns st) = None"
  shows "written (print_tallies conv fns st)
           = header_line (sort fns) #
             map (row_text st (sort fns)) (sort_key (row_key conv st (sort fns)) (map fst st))"
proof -
  let ?fs = "sort fns" and ?ks = "map fst st"
  obtain res st' where t: "totals_loop conv ?fs ?ks st [] = (res, st')"
    by (cases "totals_loop conv ?fs ?ks st []")
  from assms(2) print_tallies_unfold[OF t] obtain T where "res = Inr T"
    by (cases res) auto
  with t print_tallies_ok[OF assms(1)] show ?thesis by simp
qed

subsection \<open>Counts that are no integers\<close>

lemma lookup_in_keys: "lookup st p f = Some v \<Longrightarrow> p \<in> set (map fst st)"
proof -
  assume "lookup st p f = Some v"
  then have "p \<in> dom (map_of st)"
    by (auto simp: lookup_def split: option.splits)
  then show ?thesis by (simp add: dom_map_of_conv_image_fst)
qed

lemma print_tallies_all_parse:
  assumes "raised (print_tallies conv fns st) = None"
    and "p \<in> set (map fst st)" and "f \<in> set fns"
  shows "\<exists>n. to_int conv (count_for st p f) = Some n"
proof (cases "lookup st p f")
  case None
  then show ?thesis by (simp add: count_for_def)
next
  case (Some v)
  show ?thesis
  proof (cases v)
    case (PInt n)
    with Some show ?thesis by (simp add: count_for_def)
  next
    case (PStr s)
    have "conv s \<noteq> None"
    proof
      assume "conv s = None"
      with Some PStr assms(2,3) print_tallies_bad[of p st f fns s conv] assms(1)
      show False by simp
    qed
    with Some PStr show ?thesis by (auto simp: count_for_def)
  qed
qed

lemma print_tallies_no_bad:
  assumes "distinct (map fst st)"
    and "\<And>p f s. lookup st p f = Some (PStr s) \<Longrightarrow> f \<in> set fns \<Longrightarrow> conv s \<noteq> None"
  shows "raised (print_tallies conv fns st) = None"
proof (cases "raised (print_tallies conv fns st)")
  case None
  then show ?thesis .
next
  case (Some e)
  from print_tallies_raised[OF assms(1) Some] assms(2) show ?thesis by blast
qed

subsection \<open>The table after \<open>print_tallies\<close>\<close>

lemma store_after_keys:
  "map fst (store_after (print_tallies conv fns st)) = map fst st"
  unfolding store_after_print_tallies by (rule totals_loop_keys) simp

lemma store_after_keeps:
  "lookup st p f = Some v \<Longrightarrow> lookup (store_after (print_tallies conv fns st)) p f = Some v"
  unfolding store_after_print_tallies by (rule totals_loop_keeps)

lemma store_after_new:
  assumes "lookup (store_after (print_tallies conv fns st)) p f = Some v"
    and "lookup st p f = None"
  shows "v = PInt 0 \<and> f \<in> set fns \<and> p \<in> set (map fst st)"
  using assms totals_loop_new[of conv "sort fns" "map fst st" st "[]" p f v]
  unfolding store_after_print_tallies by simp

lemma store_after_filled:
  assumes "distinct (map fst st)" and "raised (print_tallies conv fns st) = None"
    and "p \<in> set (map fst st)" and "f \<in> set fns"
  shows "lookup (store_after (print_tallies conv fns st)) p f = Some (count_for st p f)"
proof -
  let ?fs = "sort fns" and ?ks = "map fst st"
  obtain res st' where t: "totals_loop conv ?fs ?ks st [] = (res, st')"
    by (cases "totals_loop conv ?fs ?ks st []")
  from assms(2) print_tallies_unfold[OF t] obtain T where "res = Inr T"
    by (cases res) auto
  with t have "fst (totals_loop conv ?fs ?ks st []) = Inr T" by simp
  from totals_loop_ok[OF this assms(1)] have
    "\<forall>p \<in> set ?ks. \<forall>f \<in> set ?fs.
       lookup (snd (totals_loop conv ?fs ?ks st [])) p f = Some (count_for st p f)"
    by simp
  with assms(3,4) show ?thesis
    unfolding store_after_print_tallies by (simp del: set_map)
qed

lemma print_tallies_perm:
  assumes "mset fns' = mset fns"
  shows "print_tallies conv fns' st = print_tallies conv fns st"
proof -
  have "sort fns = sort fns'"
    by (rule properties_for_sort) (simp_all add: assms)
  then show ?thesis by (simp add: print_tallies_def)
qed

subsection \<open>Ingestion\<close>

lemma lookup_store_set:
  "lookup (store_set st p f v) q g = (if q = p \<and> g = f then Some v else lookup st q g)"
  by (auto simp: store_set_def lookup_def inner_def update_conv' split: option.splits)

lemma distinct_store_set:
  "distinct (map fst st) \<Longrightarrow> distinct (map fst (store_set st p f v))"
  by (simp add: store_set_def distinct_update)

lemma ingest_line_fields:
  "split_on TAB line = item0 # item1 # rest \<Longrightarrow>
     ingest_line file_name line st = Inr (store_set st item0 file_name (PStr item1))"
  by (simp add: ingest_line_def)

lemma ingest_line_short:
  "length (split_on TAB line) < 2 \<Longrightarrow> ingest_line file_name line st = Inl IndexError"
  by (cases "split_on TAB line" rule: list.exhaust[case_names Nil Cons])
    (auto simp: ingest_line_def split: list.splits)

lemma ingest_line_distinct:
  "ingest_line file_name line st = Inr st' \<Longrightarrow> distinct (map fst st)
     \<Longrightarrow> distinct (map fst st')"
  by (auto simp: ingest_line_def distinct_store_set split: list.splits)

lemma ingest_lines_distinct:
  "ingest_lines file_name lines st = Inr st' \<Longrightarrow> distinct (map fst st)
     \<Longrightarrow> distinct (map fst st')"
proof (induction lines arbitrary: st)
  case Nil
  then show ?case by simp
next
  case (Cons line lines)
  then show ?case
    by (auto split: sum.splits dest: ingest_line_distinct)
qed

lemma ingest_lines_short:
  "line \<in> set lines \<Longrightarrow> length (split_on TAB line) < 2
     \<Longrightarrow> ingest_lines file_name lines st = Inl IndexError"
proof (induction lines arbitrary: st)
  case Nil
  then show ?case by simp
next
  case (Cons l lines)
  show ?case
  proof (cases "ingest_line file_name l st")
    case (Inl e)
    then have "e = IndexError"
      by (auto simp: ingest_line_def split: list.splits)
    with Inl show ?thesis by simp
  next
    case (Inr st')
    with Cons.prems have "line \<noteq> l"
      by (auto simp: ingest_line_short)
    with Cons Inr show ?thesis by simp
  qed
qed

lemma ingest_lines_error:
  "ingest_lines file_name lines st = Inl e \<Longrightarrow> e = IndexError"
proof (induction lines arbitrary: st)
  case Nil
  then show ?case by simp
next
  case (Cons l lines)
  then show ?case
    by (cases "ingest_line file_name l st")
      (auto simp: ingest_line_def split: list.splits)
qed

lemma tally_loop_distinct:
  "tally_loop ext files names st = Inr (names', st') \<Longrightarrow> distinct (map fst st)
     \<Longrightarrow> distinct (map fst st')"
proof (induction files arbitrary: names st)
  case Nil
  then show ?case by simp
next
  case (Cons x files)
  obtain name out where x: "x = (name, out)" by (cases x)
  from Cons.prems(1) obtain st1 where
    i: "ingest_lines (sample_name ext name) (split_on NL (rstrip (stdout out))) st = Inr st1"
    and r: "tally_loop ext files (names @ [sample_name ext name]) st1 = Inr (names', st')"
    unfolding x by (auto simp: Let_def split: if_splits sum.splits)
  from ingest_lines_distinct[OF i Cons.prems(2)] Cons.IH[OF r] show ?case by simp
qed

lemma tally_loop_short:
  assumes "(name, output) \<in> set files"
    and "line \<in> set (split_on NL (rstrip (stdout output)))"
    and "length (split_on TAB line) < 2"
  shows "tally_loop ext files names st = Inl IndexError
         \<or> tally_loop ext files names st = Inl CalledProcessError"
  using assms(1)
proof (induction files arbitrary: names st)
  case Nil
  then show ?case by simp
next
  case (Cons x files)
  obtain n out where x: "x = (n, out)" by (cases x)
  show ?case
  proof (cases "returncode out = 0")
    case False
    then show ?thesis by (simp add: x Let_def)
  next
    case True
    show ?thesis
    proof (cases "ingest_lines (sample_name ext n) (split_on NL (rstrip (stdout out))) st")
      case (Inl e)
      then have "e = IndexError" by (rule ingest_lines_error)
      with Inl True show ?thesis by (simp add: x Let_def)
    next
      case (Inr st1)
      have "(name, output) \<noteq> (n, out)"
      proof
        assume "(name, output) = (n, out)"
        with assms(2,3) ingest_lines_short[of line _ "sample_name ext n" st] Inr
        show False by auto
      qed
      with Cons.prems x have "(name, output) \<in> set files" by auto
      from Cons.IH[OF this] Inr True show ?thesis by (simp add: x Let_def)
    qed
  qed
qed


subsection \<open>The text of the rows, and a run that stops\<close>

lemma str_int_0: "str_int 0 = ''0''"
  by code_simp

lemma py_str_count_for: "py_str (count_for st p f) = cell_text st p f"
  by (simp add: count_for_def cell_text_def str_int_0 split: option.splits pyval.splits)

lemma row_text_cells:
  "row_text st fs p = p @ [TAB] @ join [TAB] (map (cell_text st p) fs)"
  by (simp add: row_text_def py_str_count_for)

lemma row_total_parsed:
  "row_total conv st fs p
     = sum_list (map (\<lambda>f. case lookup st p f of
                              None \<Rightarrow> 0
                            | Some (PInt n) \<Rightarrow> n
                            | Some (PStr s) \<Rightarrow> (case conv s of None \<Rightarrow> 0 | Some n \<Rightarrow> n)) fs)"
  unfolding row_total_def
  by (rule arg_cong[where f = sum_list], rule map_cong)
    (auto simp: int_or_zero_def count_for_def split: option.splits pyval.splits)

lemma main_aborts:
  "tally_primers ext files [] = Inl e \<Longrightarrow>
     main conv ext files = \<lparr>run_raised = Some e, report = None\<rparr>"
  by (simp add: main_def)

subsection \<open>Tables that the program builds\<close>

text \<open>
  The table that \<open>tally_primers\<close> builds from the empty one has distinct pairs, and
  the file names it returns are the sample names of the files, in their order.
\<close>

lemma tally_primers_distinct:
  "tally_primers ext files [] = Inr (names, st) \<Longrightarrow> distinct (map fst st)"
  unfolding tally_primers_def by (erule tally_loop_distinct) simp

lemma tally_loop_names:
  "tally_loop ext files names st = Inr (names', st')
     \<Longrightarrow> names' = names @ map (\<lambda>x. sample_name ext (fst x)) files"
proof (induction files arbitrary: names st)
  case Nil
  then show ?case by simp
next
  case (Cons x files)
  obtain name out where x: "x = (name, out)" by (cases x)
  from Cons.prems obtain st1 where
    "tally_loop ext files (names @ [sample_name ext name]) st1 = Inr (names', st')"
    unfolding x by (auto simp: Let_def split: if_splits sum.splits)
  from Cons.IH[OF this] show ?case by (simp add: x)
qed

text \<open>
  The end-to-end scenario of the specification, and a run in which the tool prints
  nothing for a file: the one line of the output is empty, and has one field.
\<close>

lemma ex_files_tally:
  "tally_primers ''fq'' ex_files [] = Inr ([''S1_R1'', ''S2_R1''], ex_store)"
  by code_simp

lemma ex_files_report:
  "main py_int ''fq'' ex_files
     = \<lparr>run_raised = None,
        report = Some [''pair'' @ [TAB] @ ''S1_R1'' @ [TAB] @ ''S2_R1'',
                       ''A'' @ [TAB] @ ''10'' @ [TAB] @ ''7'',
                       ''B'' @ [TAB] @ ''5'' @ [TAB] @ ''0'']\<rparr>"
  by code_simp

lemma ex_store_parses:
  "\<forall>p f s. lookup ex_store p f = Some (PStr s) \<and> f \<in> set [''S1_R1'', ''S2_R1'']
     \<longrightarrow> py_int s \<noteq> None"
proof (intro allI impI)
  fix p f s
  assume "lookup ex_store p f = Some (PStr s) \<and> f \<in> set [''S1_R1'', ''S2_R1'']"
  then have "s = ''10'' \<or> s = ''7'' \<or> s = ''5''"
    by (auto simp: lookup_def ex_store_def split: if_splits)
  moreover have "py_int ''10'' \<noteq> None" "py_int ''7'' \<noteq> None" "py_int ''5'' \<noteq> None"
    by code_simp+
  ultimately show "py_int s \<noteq> None" by blast
qed

lemma empty_tool_output_aborts:
  "main py_int ''fq'' [(''S1_R1.fq'', \<lparr>returncode = 0, stdout = []\<rparr>)]
     = \<lparr>run_raised = Some IndexError, report = None\<rparr>"
  by code_simp

subsection \<open>\<open>replace\<close> when the text occurs once, at the end\<close>

text \<open>
  Where the text to replace occurs only as the end of the name, \<open>replace\<close> rewrites
  that end: the sample name is the name without its extension, and the output path of
  a domain is the input path with the domain before its extension.
\<close>

lemma replace_Nil: "old \<noteq> [] \<Longrightarrow> replace old new [] = []"
  by (simp add: replace.simps)

lemma replace_only_suffix:
  assumes "old \<noteq> []"
    and "\<forall>i < length pre. take (length old) (drop i (pre @ old)) \<noteq> old"
  shows "replace old new (pre @ old) = pre @ new"
  using assms(2)
proof (induction pre)
  case Nil
  have "replace old new old = new @ replace old new []"
    using assms(1) by (subst replace.simps) simp
  with assms(1) show ?case by (simp add: replace_Nil)
next
  case (Cons c pre)
  from Cons.prems have "take (length old) (drop 0 ((c # pre) @ old)) \<noteq> old"
    by (metis length_greater_0_conv list.discI)
  then have no: "take (length old) (c # pre @ old) \<noteq> old" by simp
  have rest: "\<forall>i < length pre. take (length old) (drop i (pre @ old)) \<noteq> old"
  proof (intro allI impI)
    fix i assume "i < length pre"
    then have "Suc i < length (c # pre)" by simp
    with Cons.prems have "take (length old) (drop (Suc i) ((c # pre) @ old)) \<noteq> old"
      by blast
    then show "take (length old) (drop i (pre @ old)) \<noteq> old" by simp
  qed
  have "replace old new (c # pre @ old) = c # replace old new (pre @ old)"
    using assms(1) no by (subst replace.simps) simp
  with Cons.IH[OF rest] show ?case by simp
qed

lemma sample_name_only_suffix:
  assumes "\<forall>i < length stem.
      take (Suc (length ext)) (drop i (stem @ CHR ''.'' # ext)) \<noteq> CHR ''.'' # ext"
  shows "sample_name ext (stem @ CHR ''.'' # ext) = stem"
  using replace_only_suffix[of "CHR ''.'' # ext" stem "[]"] assms
  by (simp add: sample_name_def)

lemma ext_here_False:
  assumes "e \<noteq> []"
  shows "\<not> ext_here (pre @ CHR ''.'' # e)"
proof -
  have nw: "\<not> is_word (CHR ''.'')" by code_simp
  have "\<exists>r. dropWhile is_word (pre @ CHR ''.'' # e) = r @ CHR ''.'' # e"
  proof (induction pre)
    case Nil
    show ?case using nw by (intro exI[of _ "[]"]) simp
  next
    case (Cons c pre)
    then obtain r where r: "dropWhile is_word (pre @ CHR ''.'' # e) = r @ CHR ''.'' # e"
      by blast
    show ?case
    proof (cases "is_word c")
      case True
      with r show ?thesis by simp
    next
      case False
      then show ?thesis by (intro exI[of _ "c # pre"]) simp
    qed
  qed
  then obtain r where "dropWhile is_word (pre @ CHR ''.'' # e) = r @ CHR ''.'' # e" ..
  moreover have "r @ CHR ''.'' # e \<noteq> []" "r @ CHR ''.'' # e \<noteq> [NL]"
    using assms by (cases r; cases e; simp)+
  ultimately show ?thesis by (simp add: ext_here_def Let_def)
qed

lemma ext_here_word:
  assumes "e \<noteq> []" "list_all is_word e"
  shows "ext_here e \<and> takeWhile is_word e = e"
proof -
  from assms(2) have t: "takeWhile is_word e = e" and d: "dropWhile is_word e = []"
    by (simp_all add: list_all_iff)
  show ?thesis
    unfolding ext_here_def Let_def t d using assms(1) by simp
qed

lemma search_ext_last:
  assumes "e \<noteq> []" "list_all is_word e"
  shows "search_ext (stem @ CHR ''.'' # e) = Some (CHR ''.'' # e)"
proof (induction stem)
  case Nil
  from ext_here_word[OF assms] show ?case by simp
next
  case (Cons c stem)
  from ext_here_False[OF assms(1), of stem] Cons show ?case by simp
qed

lemma o_file_only_suffix:
  assumes "e \<noteq> []" "list_all is_word e"
    and "\<forall>i < length stem.
      take (Suc (length e)) (drop i (stem @ CHR ''.'' # e)) \<noteq> CHR ''.'' # e"
  shows "o_file (stem @ CHR ''.'' # e) domain = Inr (stem @ ''_'' @ domain @ CHR ''.'' # e)"
  using search_ext_last[OF assms(1,2), of stem]
    replace_only_suffix[of "CHR ''.'' # e" stem "''_'' @ domain @ CHR ''.'' # e"] assms(3)
  by (simp add: o_file_def)

lemma update_fresh: "k \<notin> fst ` set al \<Longrightarrow> AList.update k v al = al @ [(k, v)]"
  by (induction al) auto

lemma write_loop_only_suffix:
  assumes e: "e \<noteq> []" "list_all is_word e"
    and once: "\<forall>i < length stem.
      take (Suc (length e)) (drop i (stem @ CHR ''.'' # e)) \<noteq> CHR ''.'' # e"
  shows "distinct (map fst (done @ sequences)) \<Longrightarrow>
     write_loop (stem @ CHR ''.'' # e) sequences
         (map (\<lambda>x. (stem @ ''_'' @ fst x @ CHR ''.'' # e, snd x)) done)
       = Inr (map (\<lambda>x. (stem @ ''_'' @ fst x @ CHR ''.'' # e, snd x)) (done @ sequences))"
proof (induction sequences arbitrary: "done")
  case Nil
  then show ?case by simp
next
  case (Cons x sequences)
  let ?P = "\<lambda>d. stem @ ''_'' @ d @ CHR ''.'' # e"
  let ?files = "map (\<lambda>x. (?P (fst x), snd x)) done"
  have "?P (fst x) \<notin> fst ` set ?files"
    using Cons.prems by (auto simp: image_iff)
  then have u: "AList.update (?P (fst x)) (snd x) ?files
                  = map (\<lambda>x. (?P (fst x), snd x)) (done @ [x])"
    by (simp add: update_fresh)
  from Cons.prems have "distinct (map fst ((done @ [x]) @ sequences))" by simp
  from Cons.IH[OF this] u o_file_only_suffix[OF e once, of "fst x"]
  show ?case by simp
qed

lemma write_sequences_only_suffix:
  assumes "e \<noteq> []" "list_all is_word e"
    and "\<forall>i < length stem.
      take (Suc (length e)) (drop i (stem @ CHR ''.'' # e)) \<noteq> CHR ''.'' # e"
    and "distinct (map fst sequences)"
  shows "write_sequences (stem @ CHR ''.'' # e) sequences
           = Inr (map (\<lambda>x. (stem @ ''_'' @ fst x @ CHR ''.'' # e, snd x)) sequences)"
  using write_loop_only_suffix[OF assms(1,2,3), of "[]" sequences] assms(4)
  by (simp add: write_sequences_def)

lemma group_loop_distinct:
  "group_loop records sequences = Inr sequences' \<Longrightarrow> distinct (map fst sequences)
     \<Longrightarrow> distinct (map fst sequences')"
proof (induction records arbitrary: sequences)
  case Nil
  then show ?case by simp
next
  case (Cons r records)
  from Cons.prems(1) obtain domain v where
    "group_loop records (AList.update domain v sequences) = Inr sequences'"
    by (auto simp: Let_def split: list.splits option.splits)
  from Cons.IH[OF this] Cons.prems(2) show ?case by (simp add: distinct_update)
qed

section \<open>The order of the rows (C1)\<close>

text \<open>
  C1: in the report, the rows are ordered by their total, descending, and among
  equal totals by the identity of the pair in lower case, ascending; rows that agree
  in both keep the order in which the table iterates over its pairs. The rows are
  those of the pairs of the table, each once (\<open>order\<close> below is their sequence), and
  the total of a row is the sum of its counts, all of which are integers when
  \<open>print_tallies\<close> raises nothing.
\<close>

theorem rows_sorted_stable:
  assumes "distinct (map fst st)"
    and "raised (print_tallies conv fns st) = None"
  shows "\<exists>order.
    written (print_tallies conv fns st)
      = header_line (sort fns) # map (row_text st (sort fns)) order
    \<and> mset order = mset (map fst st)
    \<and> (\<forall>i j. i < j \<and> j < length order \<longrightarrow>
          row_total conv st (sort fns) (order ! j) < row_total conv st (sort fns) (order ! i)
          \<or> (row_total conv st (sort fns) (order ! j) = row_total conv st (sort fns) (order ! i)
              \<and> lower (order ! i) \<le> lower (order ! j)))
    \<and> (\<forall>t l. filter (\<lambda>p. row_total conv st (sort fns) p = t \<and> lower p = l) order
             = filter (\<lambda>p. row_total conv st (sort fns) p = t \<and> lower p = l) (map fst st))
    \<and> (\<forall>p \<in> set (map fst st). \<forall>f \<in> set fns. to_int conv (count_for st p f) \<noteq> None)"
proof -
  let ?fs = "sort fns" and ?ks = "map fst st"
  let ?order = "sort_key (row_key conv st ?fs) ?ks"
  have w: "written (print_tallies conv fns st)
             = header_line ?fs # map (row_text st ?fs) ?order"
    using assms by (rule print_tallies_written)
  have "sorted (map (row_key conv st ?fs) ?order)"
    by (rule sorted_sort_key)
  then have s: "\<forall>i j. i < j \<and> j < length ?order \<longrightarrow>
      row_key conv st ?fs (?order ! i) \<le> row_key conv st ?fs (?order ! j)"
    by (auto simp: sorted_iff_nth_mono_less simp del: length_sort)
  have stable: "filter (\<lambda>p. row_total conv st ?fs p = t \<and> lower p = l) ?order
      = filter (\<lambda>p. row_total conv st ?fs p = t \<and> lower p = l) ?ks" for t l
    using sort_key_stable[of "row_key conv st ?fs" "(- t, l)" ?ks]
    by (simp add: row_key_eq)
  have parse: "\<forall>p \<in> set ?ks. \<forall>f \<in> set fns. to_int conv (count_for st p f) \<noteq> None"
    using print_tallies_all_parse[OF assms(2)] by fastforce
  show ?thesis
    using w s stable parse by (intro exI[of _ ?order]) (simp add: row_key_le)
qed

text \<open>
  C1, on the table \<open>ex_ties\<close>: \<open>v4\<close> with 80 reads comes first; of the three pairs
  with 5 reads, \<open>16S\<close> precedes the other two, and \<open>its\<close> and \<open>ITS\<close>, equal in lower case,
  stay in the order of the table. The first two rows are in order, and the count of
  \<open>v4\<close> is an integer.
\<close>

theorem rows_sorted_stable_witness:
  "distinct (map fst ex_ties)
   \<and> raised (print_tallies py_int [''s1''] ex_ties) = None
   \<and> (\<exists>order.
        written (print_tallies py_int [''s1''] ex_ties)
          = header_line (sort [''s1'']) # map (row_text ex_ties (sort [''s1''])) order
        \<and> mset order = mset (map fst ex_ties)
        \<and> (0::nat) < 1 \<and> 1 < length order
        \<and> (row_total py_int ex_ties (sort [''s1'']) (order ! 1)
              < row_total py_int ex_ties (sort [''s1'']) (order ! 0)
            \<or> (row_total py_int ex_ties (sort [''s1'']) (order ! 1)
                 = row_total py_int ex_ties (sort [''s1'']) (order ! 0)
                \<and> lower (order ! 0) \<le> lower (order ! 1)))
        \<and> filter (\<lambda>p. row_total py_int ex_ties (sort [''s1'']) p = 5 \<and> lower p = ''its'') order
            = filter (\<lambda>p. row_total py_int ex_ties (sort [''s1'']) p = 5 \<and> lower p = ''its'')
                (map fst ex_ties))
   \<and> ''v4'' \<in> set (map fst ex_ties) \<and> ''s1'' \<in> set [''s1'']
   \<and> to_int py_int (count_for ex_ties ''v4'' ''s1'') \<noteq> None
   \<and> written (print_tallies py_int [''s1''] ex_ties)
       = [''pair'' @ [TAB] @ ''s1'', ''v4'' @ [TAB] @ ''80'', ''16S'' @ [TAB] @ ''5'',
          ''its'' @ [TAB] @ ''5'', ''ITS'' @ [TAB] @ ''5'']"
proof -
  have d: "distinct (map fst ex_ties)" by code_simp
  have r: "raised (print_tallies py_int [''s1''] ex_ties) = None" by code_simp
  have w: "written (print_tallies py_int [''s1''] ex_ties)
       = [''pair'' @ [TAB] @ ''s1'', ''v4'' @ [TAB] @ ''80'', ''16S'' @ [TAB] @ ''5'',
          ''its'' @ [TAB] @ ''5'', ''ITS'' @ [TAB] @ ''5'']" by code_simp
  have k: "''v4'' \<in> set (map fst ex_ties)" "''s1'' \<in> set [''s1'']"
    by (simp_all add: ex_ties_def)
  from rows_sorted_stable[OF d r] obtain order where
    o1: "written (print_tallies py_int [''s1''] ex_ties)
          = header_line (sort [''s1'']) # map (row_text ex_ties (sort [''s1''])) order"
    and o2: "mset order = mset (map fst ex_ties)"
    and o3: "\<forall>i j. i < j \<and> j < length order \<longrightarrow>
          row_total py_int ex_ties (sort [''s1'']) (order ! j)
            < row_total py_int ex_ties (sort [''s1'']) (order ! i)
          \<or> (row_total py_int ex_ties (sort [''s1'']) (order ! j)
               = row_total py_int ex_ties (sort [''s1'']) (order ! i)
              \<and> lower (order ! i) \<le> lower (order ! j))"
    and o4: "\<forall>t l. filter (\<lambda>p. row_total py_int ex_ties (sort [''s1'']) p = t \<and> lower p = l) order
        = filter (\<lambda>p. row_total py_int ex_ties (sort [''s1'']) p = t \<and> lower p = l)
                (map fst ex_ties)"
    and o5: "\<forall>p \<in> set (map fst ex_ties). \<forall>f \<in> set [''s1''].
               to_int py_int (count_for ex_ties p f) \<noteq> None"
    by blast
  from o2 have "length order = length (map fst ex_ties)" by (rule mset_eq_length)
  then have len: "(0::nat) < 1 \<and> 1 < length order" by (simp add: ex_ties_def)
  with o3 have s: "row_total py_int ex_ties (sort [''s1'']) (order ! 1)
              < row_total py_int ex_ties (sort [''s1'']) (order ! 0)
            \<or> (row_total py_int ex_ties (sort [''s1'']) (order ! 1)
                 = row_total py_int ex_ties (sort [''s1'']) (order ! 0)
                \<and> lower (order ! 0) \<le> lower (order ! 1))"
    by blast
  from o5 k have p: "to_int py_int (count_for ex_ties ''v4'' ''s1'') \<noteq> None" by blast
  from o1 o2 len s o4 have "\<exists>order.
        written (print_tallies py_int [''s1''] ex_ties)
          = header_line (sort [''s1'']) # map (row_text ex_ties (sort [''s1''])) order
        \<and> mset order = mset (map fst ex_ties)
        \<and> (0::nat) < 1 \<and> 1 < length order
        \<and> (row_total py_int ex_ties (sort [''s1'']) (order ! 1)
              < row_total py_int ex_ties (sort [''s1'']) (order ! 0)
            \<or> (row_total py_int ex_ties (sort [''s1'']) (order ! 1)
                 = row_total py_int ex_ties (sort [''s1'']) (order ! 0)
                \<and> lower (order ! 0) \<le> lower (order ! 1)))
        \<and> filter (\<lambda>p. row_total py_int ex_ties (sort [''s1'']) p = 5 \<and> lower p = ''its'') order
            = filter (\<lambda>p. row_total py_int ex_ties (sort [''s1'']) p = 5 \<and> lower p = ''its'')
                (map fst ex_ties)"
    by blast
  with d r k p w show ?thesis by blast
qed

text \<open>
  The ordering example of the specification names \<open>16S_V4\<close> before \<open>16S_v3\<close>. In lower
  case \<open>16s_v3\<close> is the smaller one, so the program prints \<open>16S_v3\<close> first; the order
  of the example is the one of the identities compared as they are.
\<close>

lemma spec_ordering_example:
  "written (print_tallies py_int [''s1''] ex_spec_rows)
     = [''pair'' @ [TAB] @ ''s1'', ''ITS'' @ [TAB] @ ''80'', ''16S_v3'' @ [TAB] @ ''50'',
        ''16S_V4'' @ [TAB] @ ''50'']
   \<and> lower ''16S_v3'' < lower ''16S_V4'' \<and> ''16S_V4'' < ''16S_v3''"
  by code_simp

section \<open>Counts read back from the table (C2)\<close>

text \<open>
  C2: a line of the tool with the fields \<open>pair\<close> and \<open>count\<close> puts the text of the
  count into the table under the pair and the file name, and changes no other entry
  (a later line for the same pair and file name overwrites it); \<open>print_tallies\<close> reads every
  entry of the table as it was stored; where a pair of the table has no entry for one
  of the file names, it reads the integer zero; and an absent entry raises no error:
  when every stored text is an integer, \<open>print_tallies\<close> raises nothing.
\<close>

theorem count_lookup:
  assumes "distinct (map fst st)"
  shows
    "(\<forall>item0 item1 rest. split_on TAB line = item0 # item1 # rest \<longrightarrow>
        (\<exists>st1. ingest_line file_name line st0 = Inr st1
           \<and> lookup st1 item0 file_name = Some (PStr item1)
           \<and> (\<forall>q g. (q, g) \<noteq> (item0, file_name) \<longrightarrow> lookup st1 q g = lookup st0 q g)))
     \<and> (\<forall>p f v. lookup st p f = Some v \<longrightarrow>
          lookup (store_after (print_tallies conv fns st)) p f = Some v)
     \<and> (raised (print_tallies conv fns st) = None \<longrightarrow>
          (\<forall>p \<in> set (map fst st). \<forall>f \<in> set fns. lookup st p f = None \<longrightarrow>
             lookup (store_after (print_tallies conv fns st)) p f = Some (PInt 0)))
     \<and> ((\<forall>p f s. lookup st p f = Some (PStr s) \<and> f \<in> set fns \<longrightarrow> conv s \<noteq> None) \<longrightarrow>
          raised (print_tallies conv fns st) = None)"
proof (intro conjI allI impI ballI)
  fix item0 item1 rest
  assume "split_on TAB line = item0 # item1 # rest"
  then show "\<exists>st1. ingest_line file_name line st0 = Inr st1
           \<and> lookup st1 item0 file_name = Some (PStr item1)
           \<and> (\<forall>q g. (q, g) \<noteq> (item0, file_name) \<longrightarrow> lookup st1 q g = lookup st0 q g)"
    by (simp add: ingest_line_fields lookup_store_set)
next
  fix p f v
  assume "lookup st p f = Some v"
  then show "lookup (store_after (print_tallies conv fns st)) p f = Some v"
    by (rule store_after_keeps)
next
  fix p f
  assume "raised (print_tallies conv fns st) = None" "p \<in> set (map fst st)" "f \<in> set fns"
    and n: "lookup st p f = None"
  from store_after_filled[OF assms this(1,2,3)] n
  show "lookup (store_after (print_tallies conv fns st)) p f = Some (PInt 0)"
    by (simp add: count_for_def)
next
  assume "\<forall>p f s. lookup st p f = Some (PStr s) \<and> f \<in> set fns \<longrightarrow> conv s \<noteq> None"
  then show "raised (print_tallies conv fns st) = None"
    by (intro print_tallies_no_bad[OF assms]) blast
qed

text \<open>
  C2, on the table of the two example files: the count \<open>5\<close> of pair \<open>B\<close> in file
  \<open>S1_R1\<close> is read back, and pair \<open>B\<close>, absent from \<open>S2_R1\<close>, reads as zero there.
\<close>

theorem count_lookup_witness:
  "distinct (map fst ex_store)
   \<and> split_on TAB (''B'' @ [TAB] @ ''5'') = [''B'', ''5'']
   \<and> (\<exists>st1. ingest_line ''S1_R1'' (''B'' @ [TAB] @ ''5'') [] = Inr st1
         \<and> lookup st1 ''B'' ''S1_R1'' = Some (PStr ''5''))
   \<and> lookup ex_store ''B'' ''S1_R1'' = Some (PStr ''5'')
   \<and> lookup (store_after (print_tallies py_int [''S1_R1'', ''S2_R1''] ex_store)) ''B'' ''S1_R1''
       = Some (PStr ''5'')
   \<and> raised (print_tallies py_int [''S1_R1'', ''S2_R1''] ex_store) = None
   \<and> ''B'' \<in> set (map fst ex_store) \<and> ''S2_R1'' \<in> set [''S1_R1'', ''S2_R1'']
   \<and> lookup ex_store ''B'' ''S2_R1'' = None
   \<and> lookup (store_after (print_tallies py_int [''S1_R1'', ''S2_R1''] ex_store)) ''B'' ''S2_R1''
       = Some (PInt 0)"
proof -
  have d: "distinct (map fst ex_store)" by code_simp
  have s: "split_on TAB (''B'' @ [TAB] @ ''5'') = [''B'', ''5'']" by code_simp
  have l: "lookup ex_store ''B'' ''S1_R1'' = Some (PStr ''5'')" by code_simp
  have k: "''B'' \<in> set (map fst ex_store)" "''S2_R1'' \<in> set [''S1_R1'', ''S2_R1'']"
    by (simp_all add: ex_store_def)
  have n: "lookup ex_store ''B'' ''S2_R1'' = None" by code_simp
  note c = count_lookup[OF d, of "''B'' @ [TAB] @ ''5''" "''S1_R1''" "[]" py_int
      "[''S1_R1'', ''S2_R1'']"]
  from c ex_store_parses
  have r: "raised (print_tallies py_int [''S1_R1'', ''S2_R1''] ex_store) = None" by blast
  from c s have "\<exists>st1. ingest_line ''S1_R1'' (''B'' @ [TAB] @ ''5'') [] = Inr st1
         \<and> lookup st1 ''B'' ''S1_R1'' = Some (PStr ''5'')" by blast
  moreover from c l have
    "lookup (store_after (print_tallies py_int [''S1_R1'', ''S2_R1''] ex_store)) ''B'' ''S1_R1''
       = Some (PStr ''5'')" by blast
  moreover from c r k n have
    "lookup (store_after (print_tallies py_int [''S1_R1'', ''S2_R1''] ex_store)) ''B'' ''S2_R1''
       = Some (PInt 0)" by blast
  ultimately show ?thesis using d s l r k n by blast
qed

section \<open>The table during materialization (C3)\<close>

text \<open>
  C3, as stated: \<open>print_tallies\<close> leaves the table unchanged. It does not hold: the
  loop of the totals stores \<open>0\<close> for every file name a pair has no entry for
  (\<open>primer_pairs[pair][file_n] = 0\<close>).
\<close>

theorem store_not_read_only_counterexample:
  "store_after (print_tallies py_int [''S1_R1'', ''S2_R1''] ex_store) \<noteq> ex_store"
  by code_simp

text \<open>
  C3, amended: \<open>print_tallies\<close> keeps the pairs of the table and their order, keeps
  every entry, and any entry it adds is the integer zero, for a pair of the table and
  one of the file names.
\<close>

theorem materialization_adds_only_zeros:
  "map fst (store_after (print_tallies conv fns st)) = map fst st
   \<and> (\<forall>p f v. lookup st p f = Some v \<longrightarrow>
        lookup (store_after (print_tallies conv fns st)) p f = Some v)
   \<and> (\<forall>p f v. lookup st p f = None
          \<and> lookup (store_after (print_tallies conv fns st)) p f = Some v \<longrightarrow>
        v = PInt 0 \<and> f \<in> set fns \<and> p \<in> set (map fst st))"
  using store_after_keys[of conv fns st] store_after_keeps[of st _ _ _ conv fns]
    store_after_new[of conv fns st]
  by blast

text \<open>
  C3, amended, on the table of the two example files: the entry of \<open>A\<close> for \<open>S2_R1\<close>
  is kept, and the entry added for \<open>B\<close> and \<open>S2_R1\<close> is zero.
\<close>

theorem materialization_adds_only_zeros_witness:
  "map fst (store_after (print_tallies py_int [''S1_R1'', ''S2_R1''] ex_store)) = map fst ex_store
   \<and> lookup ex_store ''A'' ''S2_R1'' = Some (PStr ''7'')
   \<and> lookup (store_after (print_tallies py_int [''S1_R1'', ''S2_R1''] ex_store)) ''A'' ''S2_R1''
       = Some (PStr ''7'')
   \<and> lookup ex_store ''B'' ''S2_R1'' = None
   \<and> lookup (store_after (print_tallies py_int [''S1_R1'', ''S2_R1''] ex_store)) ''B'' ''S2_R1''
       = Some (PInt 0)
   \<and> ''S2_R1'' \<in> set [''S1_R1'', ''S2_R1''] \<and> ''B'' \<in> set (map fst ex_store)"
proof -
  have l: "lookup ex_store ''A'' ''S2_R1'' = Some (PStr ''7'')" by code_simp
  have n: "lookup ex_store ''B'' ''S2_R1'' = None" by code_simp
  have a: "lookup (store_after (print_tallies py_int [''S1_R1'', ''S2_R1''] ex_store))
             ''B'' ''S2_R1'' = Some (PInt 0)" by code_simp
  note m = materialization_adds_only_zeros[of py_int "[''S1_R1'', ''S2_R1'']" ex_store]
  from m l have
    "lookup (store_after (print_tallies py_int [''S1_R1'', ''S2_R1''] ex_store)) ''A'' ''S2_R1''
       = Some (PStr ''7'')" by blast
  moreover from m n a have "''S2_R1'' \<in> set [''S1_R1'', ''S2_R1''] \<and> ''B'' \<in> set (map fst ex_store)"
    by blast
  ultimately show ?thesis using m l n a by blast
qed

section \<open>A count that is no integer (C4)\<close>

text \<open>
  C4, as stated: a line whose second field is no integer raises an error when it is
  ingested. It does not hold: \<open>tally_primers\<close> stores the field as text and converts
  nothing; here it returns the table with \<open>abc\<close> in it.
\<close>

theorem malformed_count_stored_counterexample:
  "py_int ''abc'' = None
   \<and> tally_primers ''fq'' ex_malformed []
       = Inr ([''S1_R1''], [(''A'', [(''S1_R1'', PStr ''abc'')])])"
  by code_simp

text \<open>
  C4, amended: a line with at least two fields whose second field is no integer is
  ingested without an error, and the field is stored as it is. The error is raised
  later: \<open>print_tallies\<close>, on any table that holds the field for one of its file names,
  raises \<open>ValueError\<close> in the loop of the totals, after the header line has been
  written and before any row.
\<close>

theorem malformed_count_raises_in_print_tallies:
  assumes "split_on TAB line = pair # field # rest" and "conv field = None"
  shows "(\<exists>st1. ingest_line file_name line tbl = Inr st1
            \<and> lookup st1 pair file_name = Some (PStr field))
         \<and> (\<forall>st fns. lookup st pair file_name = Some (PStr field) \<and> file_name \<in> set fns \<longrightarrow>
               raised (print_tallies conv fns st) = Some ValueError
               \<and> written (print_tallies conv fns st) = [header_line (sort fns)])"
proof (intro conjI allI impI)
  from assms(1) show "\<exists>st1. ingest_line file_name line tbl = Inr st1
            \<and> lookup st1 pair file_name = Some (PStr field)"
    by (simp add: ingest_line_fields lookup_store_set)
next
  fix st fns
  assume a: "lookup st pair file_name = Some (PStr field) \<and> file_name \<in> set fns"
  then have "pair \<in> set (map fst st)" by (auto dest: lookup_in_keys)
  with a assms(2) print_tallies_bad[of pair st file_name fns field conv]
  show "raised (print_tallies conv fns st) = Some ValueError"
    and "written (print_tallies conv fns st) = [header_line (sort fns)]"
    by simp_all
qed

text \<open>
  C4, amended, on the line \<open>A<TAB>abc\<close> of file \<open>S1_R1.fq\<close>: the whole run ends with
  \<open>ValueError\<close> and a report that holds the header line only.
\<close>

theorem malformed_count_raises_in_print_tallies_witness:
  "split_on TAB (''A'' @ [TAB] @ ''abc'') = [''A'', ''abc''] \<and> py_int ''abc'' = None
   \<and> (\<exists>st1. ingest_line ''S1_R1'' (''A'' @ [TAB] @ ''abc'') [] = Inr st1
         \<and> lookup st1 ''A'' ''S1_R1'' = Some (PStr ''abc''))
   \<and> lookup [(''A'', [(''S1_R1'', PStr ''abc'')])] ''A'' ''S1_R1'' = Some (PStr ''abc'')
   \<and> ''S1_R1'' \<in> set [''S1_R1'']
   \<and> raised (print_tallies py_int [''S1_R1''] [(''A'', [(''S1_R1'', PStr ''abc'')])])
       = Some ValueError
   \<and> written (print_tallies py_int [''S1_R1''] [(''A'', [(''S1_R1'', PStr ''abc'')])])
       = [header_line (sort [''S1_R1''])]
   \<and> main py_int ''fq'' ex_malformed
       = \<lparr>run_raised = Some ValueError, report = Some [''pair'' @ [TAB] @ ''S1_R1'']\<rparr>"
proof -
  have s: "split_on TAB (''A'' @ [TAB] @ ''abc'') = [''A'', ''abc'']" by code_simp
  have c: "py_int ''abc'' = None" by code_simp
  have l: "lookup [(''A'', [(''S1_R1'', PStr ''abc'')])] ''A'' ''S1_R1'' = Some (PStr ''abc'')"
    by code_simp
  have m: "main py_int ''fq'' ex_malformed
       = \<lparr>run_raised = Some ValueError, report = Some [''pair'' @ [TAB] @ ''S1_R1'']\<rparr>"
    by code_simp
  note t = malformed_count_raises_in_print_tallies[where line = "''A'' @ [TAB] @ ''abc''"
      and pair = "''A''" and field = "''abc''" and rest = "[]" and conv = py_int
      and file_name = "''S1_R1''" and tbl = "[]"]
  from t s c have "\<exists>st1. ingest_line ''S1_R1'' (''A'' @ [TAB] @ ''abc'') [] = Inr st1
         \<and> lookup st1 ''A'' ''S1_R1'' = Some (PStr ''abc'')" by blast
  moreover from t s c l have
    "raised (print_tallies py_int [''S1_R1''] [(''A'', [(''S1_R1'', PStr ''abc'')])])
       = Some ValueError
     \<and> written (print_tallies py_int [''S1_R1''] [(''A'', [(''S1_R1'', PStr ''abc'')])])
       = [header_line (sort [''S1_R1''])]"
    by simp
  ultimately show ?thesis using s c l m by simp
qed

section \<open>The number of fields of a line (C5)\<close>

text \<open>
  C5, as stated: a line with fewer or more than two fields aborts the run. It does
  not hold for more than two: the line \<open>A<TAB>5<TAB>junk\<close> is ingested as \<open>A\<close> with count
  \<open>5\<close>, and the run writes its report.
\<close>

theorem extra_fields_accepted_counterexample:
  "length (split_on TAB (''A'' @ [TAB] @ ''5'' @ [TAB] @ ''junk'')) = 3
   \<and> main py_int ''fq'' ex_three_fields
       = \<lparr>run_raised = None,
          report = Some [''pair'' @ [TAB] @ ''S1_R1'', ''A'' @ [TAB] @ ''5'']\<rparr>"
  by code_simp

text \<open>
  C5, amended: a line with fewer than two tab-separated fields raises \<open>IndexError\<close>,
  and a run whose tool output holds such a line ends with an error (\<open>IndexError\<close>, or
  the \<open>CalledProcessError\<close> of a failed tool run) and writes no report; a line with two
  or more fields is ingested with its first two fields, the others are ignored.
\<close>

theorem line_needs_two_fields:
  "(length (split_on TAB line) < 2 \<longrightarrow> ingest_line file_name line st = Inl IndexError)
   \<and> (\<forall>item0 item1 rest. split_on TAB line = item0 # item1 # rest \<longrightarrow>
        ingest_line file_name line st = Inr (store_set st item0 file_name (PStr item1)))
   \<and> ((name, out) \<in> set files \<and> line \<in> set (split_on NL (rstrip (stdout out)))
        \<and> length (split_on TAB line) < 2 \<longrightarrow>
        (run_raised (main conv ext files) = Some IndexError
           \<or> run_raised (main conv ext files) = Some CalledProcessError)
        \<and> report (main conv ext files) = None)"
proof (intro conjI allI impI)
  assume "length (split_on TAB line) < 2"
  then show "ingest_line file_name line st = Inl IndexError" by (rule ingest_line_short)
next
  fix item0 item1 rest
  assume "split_on TAB line = item0 # item1 # rest"
  then show "ingest_line file_name line st = Inr (store_set st item0 file_name (PStr item1))"
    by (rule ingest_line_fields)
next
  assume a: "(name, out) \<in> set files \<and> line \<in> set (split_on NL (rstrip (stdout out)))
        \<and> length (split_on TAB line) < 2"
  then have "tally_primers ext files [] = Inl IndexError
             \<or> tally_primers ext files [] = Inl CalledProcessError"
    unfolding tally_primers_def by (intro tally_loop_short[of name out files line]) simp_all
  then show "run_raised (main conv ext files) = Some IndexError
           \<or> run_raised (main conv ext files) = Some CalledProcessError"
    and "report (main conv ext files) = None"
    by (auto dest: main_aborts[of ext files _ conv])
qed

text \<open>
  C5, amended, on the line \<open>A 5\<close>, which has no tab, and on a line of three fields.
\<close>

theorem line_needs_two_fields_witness:
  "length (split_on TAB ''A 5'') < 2
   \<and> ingest_line ''S1_R1'' ''A 5'' [] = Inl IndexError
   \<and> split_on TAB (''A'' @ [TAB] @ ''5'' @ [TAB] @ ''junk'') = [''A'', ''5'', ''junk'']
   \<and> ingest_line ''S1_R1'' (''A'' @ [TAB] @ ''5'' @ [TAB] @ ''junk'') []
       = Inr (store_set [] ''A'' ''S1_R1'' (PStr ''5''))
   \<and> (''S1_R1.fq'', \<lparr>returncode = 0, stdout = ''A 5'' @ [NL]\<rparr>) \<in> set ex_no_tab
   \<and> ''A 5'' \<in> set (split_on NL (rstrip (''A 5'' @ [NL])))
   \<and> run_raised (main py_int ''fq'' ex_no_tab) = Some IndexError
   \<and> report (main py_int ''fq'' ex_no_tab) = None"
proof -
  have s: "length (split_on TAB ''A 5'') < 2" by code_simp
  have f: "(''S1_R1.fq'', \<lparr>returncode = 0, stdout = ''A 5'' @ [NL]\<rparr>) \<in> set ex_no_tab"
    by (simp add: ex_no_tab_def)
  have l: "''A 5'' \<in> set (split_on NL (rstrip (''A 5'' @ [NL])))" by code_simp
  have r: "run_raised (main py_int ''fq'' ex_no_tab) = Some IndexError" by code_simp
  note t = line_needs_two_fields[of "''A 5''" "''S1_R1''" "[]" "''S1_R1.fq''"
      "\<lparr>returncode = 0, stdout = ''A 5'' @ [NL]\<rparr>" ex_no_tab py_int "''fq''"]
  have s3: "split_on TAB (''A'' @ [TAB] @ ''5'' @ [TAB] @ ''junk'') = [''A'', ''5'', ''junk'']"
    by code_simp
  from line_needs_two_fields[of "''A'' @ [TAB] @ ''5'' @ [TAB] @ ''junk''" "''S1_R1''" "[]"] s3
  have i3: "ingest_line ''S1_R1'' (''A'' @ [TAB] @ ''5'' @ [TAB] @ ''junk'') []
       = Inr (store_set [] ''A'' ''S1_R1'' (PStr ''5''))"
    by blast
  from t s have "ingest_line ''S1_R1'' ''A 5'' [] = Inl IndexError" by blast
  moreover from t s f l have "report (main py_int ''fq'' ex_no_tab) = None" by simp
  ultimately show ?thesis using s f l r s3 i3 by simp
qed

section \<open>The sample name of a file (C6)\<close>

text \<open>
  C6: the sample name is the base name of the file without its extension. The
  program computes \<open>file_name.replace("." + args.extension, "")\<close>, which removes every
  occurrence of the extension text: the file \<open>a.fq_R1.fq\<close>, which the glob
  \<open>*R1*.fq\<close> finds, gets the sample name \<open>a_R1\<close>, not \<open>a.fq_R1\<close>, and shares it with the
  file \<open>a_R1.fq\<close>.
\<close>

theorem sample_name_strips_inner_extension:
  "glob_R1 ''fq'' ''a.fq_R1.fq''
   \<and> sample_name ''fq'' ''a.fq_R1.fq'' = ''a_R1''
   \<and> glob_R1 ''fq'' ''a_R1.fq''
   \<and> sample_name ''fq'' ''a_R1.fq'' = ''a_R1''"
  by code_simp

section \<open>A run that finds no file\<close>

text \<open>
  C7, as stated: with no file found, the report is the header line \<open>pair\<close> exactly.
  It does not hold: \<open>print_tallies\<close> prints \<open>"pair\t" + "\t".join(file_names)\<close>, and
  for no file name that is \<open>pair\<close> with a tab after it.
\<close>

theorem empty_run_header_counterexample:
  "report (main py_int ''fq'' []) \<noteq> Some [''pair'']"
  by (simp add: main_def tally_primers_def print_tallies_def header_line_def sorted_py_def)

text \<open>
  C7, amended: with no file found, the run raises no error, and the report is one
  line, \<open>pair\<close> followed by one tab: no sample column and no data row.
\<close>

theorem empty_run_report:
  "main conv ext [] = \<lparr>run_raised = None, report = Some [''pair'' @ [TAB]]\<rparr>
   \<and> file_text [''pair'' @ [TAB]] = ''pair'' @ [TAB, NL]"
  by (simp add: main_def tally_primers_def print_tallies_def header_line_def sorted_py_def
      file_text_def)

section \<open>Materializing twice (C8)\<close>

text \<open>
  C8: \<open>print_tallies\<close>, run again on the table as the first run left it and with
  the same file names in any order, ends as the first run did: the same error or
  none, the same lines written, byte for byte, and the same table.
\<close>

theorem rematerialization_identical:
  assumes "distinct (map fst st)" and "mset fns' = mset fns"
  shows "print_tallies conv fns' (store_after (print_tallies conv fns st))
           = print_tallies conv fns st
         \<and> file_text (written (print_tallies conv fns' (store_after (print_tallies conv fns st))))
           = file_text (written (print_tallies conv fns st))"
  using print_tallies_perm[OF assms(2), of conv "store_after (print_tallies conv fns st)"]
    print_tallies_idem[OF assms(1), of conv fns]
  by simp

text \<open>
  C8, on the table of the two example files, with the file names in two orders.
\<close>

theorem rematerialization_identical_witness:
  "distinct (map fst ex_store) \<and> mset [''S1_R1'', ''S2_R1''] = mset [''S2_R1'', ''S1_R1'']
   \<and> print_tallies py_int [''S1_R1'', ''S2_R1'']
        (store_after (print_tallies py_int [''S2_R1'', ''S1_R1''] ex_store))
      = print_tallies py_int [''S2_R1'', ''S1_R1''] ex_store
   \<and> written (print_tallies py_int [''S2_R1'', ''S1_R1''] ex_store)
      = [''pair'' @ [TAB] @ ''S1_R1'' @ [TAB] @ ''S2_R1'',
         ''A'' @ [TAB] @ ''10'' @ [TAB] @ ''7'',
         ''B'' @ [TAB] @ ''5'' @ [TAB] @ ''0'']"
proof -
  have d: "distinct (map fst ex_store)" by code_simp
  have m: "mset [''S1_R1'', ''S2_R1''] = mset [''S2_R1'', ''S1_R1'']" by simp
  have w: "written (print_tallies py_int [''S2_R1'', ''S1_R1''] ex_store)
      = [''pair'' @ [TAB] @ ''S1_R1'' @ [TAB] @ ''S2_R1'',
         ''A'' @ [TAB] @ ''10'' @ [TAB] @ ''7'',
         ''B'' @ [TAB] @ ''5'' @ [TAB] @ ''0'']" by code_simp
  from rematerialization_identical[OF d m, of py_int] d m w show ?thesis by simp
qed

section \<open>The output files of the domain splitter (C9)\<close>

text \<open>
  C9: the records of a domain go to the input path with \<open>_<domain>\<close> before its
  extension. The program computes \<open>silva_file.replace(f_ext, "_" + domain + f_ext)\<close>,
  which rewrites every occurrence of the extension text in the path: for the input
  \<open>archive.fasta/silva.fasta\<close> the records of \<open>Bacteria\<close> go to
  \<open>archive_Bacteria.fasta/silva_Bacteria.fasta\<close>, in another directory, not to
  \<open>archive.fasta/silva_Bacteria.fasta\<close>.
\<close>

theorem o_file_changes_directory:
  "search_ext ''archive.fasta/silva.fasta'' = Some ''.fasta''
   \<and> split_silva ''archive.fasta/silva.fasta'' [ex_record]
       = Inr [(''archive_Bacteria.fasta/silva_Bacteria.fasta'',
               [\<lparr>description = ''AB001 Bacteria;Proteobacteria;'', seq = ''ACGT''\<rparr>])]"
  by code_simp

text \<open>
  On the file name the script was written for, the extension text occurs once, and
  the path is the intended one.
\<close>

lemma o_file_plain_name:
  "o_file ''SILVA_138.1_SSURef_NR99_tax_silva.fasta'' ''Bacteria''
     = Inr ''SILVA_138.1_SSURef_NR99_tax_silva_Bacteria.fasta''"
  by code_simp

section \<open>The text of the count cells (C10)\<close>

text \<open>
  C10: every data row is the identity of its pair and one cell per file name, in
  the order of the sorted file names; the cell of a stored text is that text as it
  was stored, and the text stored for a line of the tool is its second field as it
  is; the cell of an absent combination is \<open>0\<close>. The texts are read as integers only
  for the total of the row, which orders the rows.
\<close>

theorem cells_verbatim:
  assumes "distinct (map fst st)"
    and "raised (print_tallies conv fns st) = None"
  shows
    "written (print_tallies conv fns st)
       = header_line (sort fns) #
         map (\<lambda>p. p @ [TAB] @ join [TAB] (map (cell_text st p) (sort fns)))
           (sort_key (row_key conv st (sort fns)) (map fst st))
     \<and> (\<forall>p f s. lookup st p f = Some (PStr s) \<longrightarrow> cell_text st p f = s)
     \<and> (\<forall>p f. lookup st p f = None \<longrightarrow> cell_text st p f = ''0'')
     \<and> (\<forall>file_name line tbl pair field rest.
          split_on TAB line = pair # field # rest \<longrightarrow>
          (\<exists>st1. ingest_line file_name line tbl = Inr st1
             \<and> lookup st1 pair file_name = Some (PStr field)))
     \<and> (\<forall>p. row_total conv st (sort fns) p
          = sum_list (map (\<lambda>f. case lookup st p f of
                                   None \<Rightarrow> 0
                                 | Some (PInt n) \<Rightarrow> n
                                 | Some (PStr s) \<Rightarrow> (case conv s of None \<Rightarrow> 0 | Some n \<Rightarrow> n))
                        (sort fns)))"
proof (intro conjI allI impI)
  from print_tallies_written[OF assms]
  show "written (print_tallies conv fns st)
       = header_line (sort fns) #
         map (\<lambda>p. p @ [TAB] @ join [TAB] (map (cell_text st p) (sort fns)))
           (sort_key (row_key conv st (sort fns)) (map fst st))"
    by (simp add: row_text_cells[abs_def])
next
  fix p f s
  assume "lookup st p f = Some (PStr s)"
  then show "cell_text st p f = s" by (simp add: cell_text_def)
next
  fix p f
  assume "lookup st p f = None"
  then show "cell_text st p f = ''0''" by (simp add: cell_text_def)
next
  fix file_name line tbl pair field rest
  assume "split_on TAB line = pair # field # rest"
  then show "\<exists>st1. ingest_line file_name line tbl = Inr st1
             \<and> lookup st1 pair file_name = Some (PStr field)"
    by (simp add: ingest_line_fields lookup_store_set)
next
  fix p
  show "row_total conv st (sort fns) p
          = sum_list (map (\<lambda>f. case lookup st p f of
                                   None \<Rightarrow> 0
                                 | Some (PInt n) \<Rightarrow> n
                                 | Some (PStr s) \<Rightarrow> (case conv s of None \<Rightarrow> 0 | Some n \<Rightarrow> n))
                        (sort fns))"
    by (rule row_total_parsed)
qed

text \<open>
  C10, on a run whose tool output holds the count \<open>007\<close>: the cell is \<open>007\<close>, the
  absent cells are \<open>0\<close>, and the total of the row is 7.
\<close>

theorem cells_verbatim_witness:
  "tally_primers ''fq'' ex_leading_zeros [] = Inr ([''S1_R1'', ''S2_R1''], ex_zeros_store)
   \<and> distinct (map fst ex_zeros_store)
   \<and> raised (print_tallies py_int [''S1_R1'', ''S2_R1''] ex_zeros_store) = None
   \<and> written (print_tallies py_int [''S1_R1'', ''S2_R1''] ex_zeros_store)
       = header_line (sort [''S1_R1'', ''S2_R1'']) #
         map (\<lambda>p. p @ [TAB] @ join [TAB] (map (cell_text ex_zeros_store p)
                (sort [''S1_R1'', ''S2_R1''])))
           (sort_key (row_key py_int ex_zeros_store (sort [''S1_R1'', ''S2_R1'']))
              (map fst ex_zeros_store))
   \<and> written (print_tallies py_int [''S1_R1'', ''S2_R1''] ex_zeros_store)
       = [''pair'' @ [TAB] @ ''S1_R1'' @ [TAB] @ ''S2_R1'',
          ''A'' @ [TAB] @ ''007'' @ [TAB] @ ''0'',
          ''B'' @ [TAB] @ ''0'' @ [TAB] @ ''3'']
   \<and> lookup ex_zeros_store ''A'' ''S1_R1'' = Some (PStr ''007'')
   \<and> cell_text ex_zeros_store ''A'' ''S1_R1'' = ''007''
   \<and> lookup ex_zeros_store ''A'' ''S2_R1'' = None
   \<and> cell_text ex_zeros_store ''A'' ''S2_R1'' = ''0''
   \<and> row_total py_int ex_zeros_store (sort [''S1_R1'', ''S2_R1'']) ''A'' = 7
   \<and> split_on TAB (''A'' @ [TAB] @ ''007'') = [''A'', ''007'']
   \<and> (\<exists>st1. ingest_line ''S1_R1'' (''A'' @ [TAB] @ ''007'') [] = Inr st1
         \<and> lookup st1 ''A'' ''S1_R1'' = Some (PStr ''007''))"
proof -
  have i: "tally_primers ''fq'' ex_leading_zeros [] = Inr ([''S1_R1'', ''S2_R1''], ex_zeros_store)"
    by code_simp
  have d: "distinct (map fst ex_zeros_store)" by code_simp
  have r: "raised (print_tallies py_int [''S1_R1'', ''S2_R1''] ex_zeros_store) = None"
    by code_simp
  have w: "written (print_tallies py_int [''S1_R1'', ''S2_R1''] ex_zeros_store)
       = [''pair'' @ [TAB] @ ''S1_R1'' @ [TAB] @ ''S2_R1'',
          ''A'' @ [TAB] @ ''007'' @ [TAB] @ ''0'',
          ''B'' @ [TAB] @ ''0'' @ [TAB] @ ''3'']"
    by code_simp
  have l: "lookup ex_zeros_store ''A'' ''S1_R1'' = Some (PStr ''007'')" by code_simp
  have n: "lookup ex_zeros_store ''A'' ''S2_R1'' = None" by code_simp
  have t: "row_total py_int ex_zeros_store (sort [''S1_R1'', ''S2_R1'']) ''A'' = 7" by code_simp
  note c = cells_verbatim[OF d r]
  from c l have "cell_text ex_zeros_store ''A'' ''S1_R1'' = ''007''" by blast
  moreover from c n have "cell_text ex_zeros_store ''A'' ''S2_R1'' = ''0''" by blast
  moreover from c have "written (print_tallies py_int [''S1_R1'', ''S2_R1''] ex_zeros_store)
       = header_line (sort [''S1_R1'', ''S2_R1'']) #
         map (\<lambda>p. p @ [TAB] @ join [TAB] (map (cell_text ex_zeros_store p)
                (sort [''S1_R1'', ''S2_R1''])))
           (sort_key (row_key py_int ex_zeros_store (sort [''S1_R1'', ''S2_R1'']))
              (map fst ex_zeros_store))" by blast
  moreover have sp: "split_on TAB (''A'' @ [TAB] @ ''007'') = [''A'', ''007'']" by code_simp
  moreover from c sp have "\<exists>st1. ingest_line ''S1_R1'' (''A'' @ [TAB] @ ''007'') [] = Inr st1
         \<and> lookup st1 ''A'' ''S1_R1'' = Some (PStr ''007'')" by blast
  ultimately show ?thesis using i d r w l n t by blast
qed

end
